theory Spec2Isabelle
  imports Main
begin

section \<open>Undo/redo manager (createUndoManager)\<close>

text \<open>
  An undo or redo procedure is a closure \<open>() => Promise<void> | void\<close>.  A closure handed in
  by a caller is atomic (\<open>Prim\<close>); the closures that \<open>push\<close> builds when it merges two
  actions of one group are \<open>async () => { await p(); await q() }\<close>, written \<open>Seq p q\<close>.
\<close>

datatype 'p proc = Prim 'p | Seq "'p proc" "'p proc"

record 'p UndoAction =
  undo :: "'p proc"
  redo :: "'p proc"
  groupId :: "string option"
  path :: "string option"
  description :: "string option"

text \<open>What the manager does to the outside world, in order.\<close>

datatype 'p event = Called 'p | Navigated string | UndoNotified

text \<open>The configuration: \<open>maxLength\<close> is a number of entries (20 unless given), \<open>onNavigate\<close>
  tells whether the callback is given.\<close>

record UndoManagerConfig =
  maxLength :: nat
  onNavigate :: bool

record 'p manager =
  undoStack :: "'p UndoAction list"
  redoStack :: "'p UndoAction list"
  events :: "'p event list"

datatype outcome = Returned | Threw

definition createUndoManager :: "'p manager" where
  "createUndoManager = \<lparr>undoStack = [], redoStack = [], events = []\<rparr>"

text \<open>JavaScript truthiness of an optional string: present and not empty.\<close>

fun truthy :: "string option \<Rightarrow> bool" where
  "truthy None = False"
| "truthy (Some s) = (s \<noteq> [])"

text \<open>
  Running a procedure: \<open>ok p\<close> tells whether the atomic procedure \<open>p\<close> resolves; a rejected
  \<open>await\<close> leaves the rest of the sequence unexecuted.  The result is the list of atomic
  procedures that were called, in call order, and whether the whole procedure resolved.
\<close>

fun run :: "('p \<Rightarrow> bool) \<Rightarrow> 'p proc \<Rightarrow> 'p list \<times> bool" where
  "run ok (Prim p) = ([p], ok p)"
| "run ok (Seq a b) =
     (case run ok a of
        (ca, True) \<Rightarrow> (case run ok b of (cb, r) \<Rightarrow> (ca @ cb, r))
      | (ca, False) \<Rightarrow> (ca, False))"

definition notify :: "'p manager \<Rightarrow> 'p manager" where
  "notify m = m\<lparr>events := events m @ [UndoNotified]\<rparr>"

definition merged :: "'p UndoAction \<Rightarrow> 'p UndoAction \<Rightarrow> 'p UndoAction" where
  "merged lst action =
     \<lparr>undo = Seq (undo lst) (undo action),
      redo = Seq (redo action) (redo lst),
      groupId = groupId action,
      path = (case path action of Some p \<Rightarrow> Some p | None \<Rightarrow> path lst),
      description = (case description action of Some d \<Rightarrow> Some d | None \<Rightarrow> description lst)\<rparr>"

text \<open>The stacks are JavaScript arrays: \<open>push\<close> appends, \<open>pop\<close> takes the last element,
  \<open>shift\<close> drops the first.\<close>

definition push :: "UndoManagerConfig \<Rightarrow> 'p UndoAction \<Rightarrow> 'p manager \<Rightarrow> 'p manager" where
  "push cfg action m =
     (if truthy (groupId action) \<and> length (undoStack m) > 0
         \<and> groupId (last (undoStack m)) = groupId action
      then notify (m\<lparr>undoStack := butlast (undoStack m) @ [merged (last (undoStack m)) action],
                     redoStack := []\<rparr>)
      else
        (let pushed = undoStack m @ [action];
             capped = (if length pushed > maxLength cfg then tl pushed else pushed)
         in notify (m\<lparr>undoStack := capped, redoStack := []\<rparr>)))"

definition navigate :: "UndoManagerConfig \<Rightarrow> 'p UndoAction \<Rightarrow> 'p manager \<Rightarrow> 'p manager" where
  "navigate cfg action m =
     (case path action of
        Some p \<Rightarrow> if p \<noteq> [] \<and> onNavigate cfg then m\<lparr>events := events m @ [Navigated p]\<rparr> else m
      | None \<Rightarrow> m)"

text \<open>
  \<open>undo()\<close> and \<open>redo()\<close> are async functions.  A call runs up to its \<open>await\<close>: the entry is
  popped, the navigation callback is called and the procedure is started (its atomic procedures
  are logged here); the call is then suspended, holding the popped entry in its local variable
  \<open>action\<close>, and other calls of the manager may run.  When the procedure settles the call goes
  on: after a resolved procedure the entry goes to the other stack and the subscribers are
  notified; after a rejected one the \<open>catch\<close> block puts the entry back and rethrows.
\<close>

definition undo_begin ::
  "UndoManagerConfig \<Rightarrow> ('p \<Rightarrow> bool) \<Rightarrow> 'p manager \<Rightarrow> 'p manager \<times> 'p UndoAction option" where
  "undo_begin cfg ok m =
     (if undoStack m = [] then (m, None)
      else
        (let action = last (undoStack m);
             m1 = navigate cfg action (m\<lparr>undoStack := butlast (undoStack m)\<rparr>)
         in (m1\<lparr>events := events m1 @ map Called (fst (run ok (undo action)))\<rparr>, Some action)))"

definition undo_settle ::
  "('p \<Rightarrow> bool) \<Rightarrow> 'p UndoAction \<Rightarrow> 'p manager \<Rightarrow> 'p manager \<times> outcome" where
  "undo_settle ok action m =
     (if snd (run ok (undo action))
      then (notify (m\<lparr>redoStack := redoStack m @ [action]\<rparr>), Returned)
      else (m\<lparr>undoStack := undoStack m @ [action]\<rparr>, Threw))"

definition redo_begin ::
  "UndoManagerConfig \<Rightarrow> ('p \<Rightarrow> bool) \<Rightarrow> 'p manager \<Rightarrow> 'p manager \<times> 'p UndoAction option" where
  "redo_begin cfg ok m =
     (if redoStack m = [] then (m, None)
      else
        (let action = last (redoStack m);
             m1 = navigate cfg action (m\<lparr>redoStack := butlast (redoStack m)\<rparr>)
         in (m1\<lparr>events := events m1 @ map Called (fst (run ok (redo action)))\<rparr>, Some action)))"

definition redo_settle ::
  "UndoManagerConfig \<Rightarrow> ('p \<Rightarrow> bool) \<Rightarrow> 'p UndoAction \<Rightarrow> 'p manager \<Rightarrow> 'p manager \<times> outcome" where
  "redo_settle cfg ok action m =
     (if snd (run ok (redo action))
      then
        (let pushed = undoStack m @ [action];
             capped = (if length pushed > maxLength cfg then tl pushed else pushed)
         in (notify (m\<lparr>undoStack := capped\<rparr>), Returned))
      else (m\<lparr>redoStack := redoStack m @ [action]\<rparr>, Threw))"

text \<open>\<open>await manager.undo()\<close> and \<open>await manager.redo()\<close> with no other call of the manager
  before the promise settles: the two halves one after the other.\<close>

definition undo_op ::
  "UndoManagerConfig \<Rightarrow> ('p \<Rightarrow> bool) \<Rightarrow> 'p manager \<Rightarrow> 'p manager \<times> outcome" where
  "undo_op cfg ok m =
     (case undo_begin cfg ok m of
        (m1, None) \<Rightarrow> (m1, Returned)
      | (m1, Some action) \<Rightarrow> undo_settle ok action m1)"

definition redo_op ::
  "UndoManagerConfig \<Rightarrow> ('p \<Rightarrow> bool) \<Rightarrow> 'p manager \<Rightarrow> 'p manager \<times> outcome" where
  "redo_op cfg ok m =
     (case redo_begin cfg ok m of
        (m1, None) \<Rightarrow> (m1, Returned)
      | (m1, Some action) \<Rightarrow> redo_settle cfg ok action m1)"

definition clear :: "'p manager \<Rightarrow> 'p manager" where
  "clear m = notify (m\<lparr>undoStack := [], redoStack := []\<rparr>)"

text \<open>A caller's sequence of operations, each awaited before the next one starts.\<close>

datatype 'p op = Push "'p UndoAction" | Undo | Redo | Clear

fun step :: "UndoManagerConfig \<Rightarrow> ('p \<Rightarrow> bool) \<Rightarrow> 'p op \<Rightarrow> 'p manager \<Rightarrow> 'p manager" where
  "step cfg ok (Push a) m = push cfg a m"
| "step cfg ok Undo m = fst (undo_op cfg ok m)"
| "step cfg ok Redo m = fst (redo_op cfg ok m)"
| "step cfg ok Clear m = clear m"

fun exec :: "UndoManagerConfig \<Rightarrow> ('p \<Rightarrow> bool) \<Rightarrow> 'p op list \<Rightarrow> 'p manager \<Rightarrow> 'p manager" where
  "exec cfg ok [] m = m"
| "exec cfg ok (x # xs) m = exec cfg ok xs (step cfg ok x m)"

text \<open>
  Calls that overlap: the manager together with the calls of \<open>undo()\<close> and \<open>redo()\<close> that are
  suspended at their \<open>await\<close>, oldest first.  A turn of the event loop is a call of the manager
  (for \<open>undo\<close> and \<open>redo\<close>: its first half) or the settlement of the \<open>i\<close>-th suspended call.
\<close>

datatype 'p suspended = InUndo "'p UndoAction" | InRedo "'p UndoAction"

datatype 'p turn = CallPush "'p UndoAction" | CallUndo | CallRedo | CallClear | Settle nat

fun interleaved_step ::
  "UndoManagerConfig \<Rightarrow> ('p \<Rightarrow> bool) \<Rightarrow> 'p turn \<Rightarrow> 'p manager \<times> 'p suspended list \<Rightarrow>
     'p manager \<times> 'p suspended list" where
  "interleaved_step cfg ok (CallPush a) (m, ss) = (push cfg a m, ss)"
| "interleaved_step cfg ok CallUndo (m, ss) =
     (case undo_begin cfg ok m of
        (m1, None) \<Rightarrow> (m1, ss)
      | (m1, Some action) \<Rightarrow> (m1, ss @ [InUndo action]))"
| "interleaved_step cfg ok CallRedo (m, ss) =
     (case redo_begin cfg ok m of
        (m1, None) \<Rightarrow> (m1, ss)
      | (m1, Some action) \<Rightarrow> (m1, ss @ [InRedo action]))"
| "interleaved_step cfg ok CallClear (m, ss) = (clear m, ss)"
| "interleaved_step cfg ok (Settle i) (m, ss) =
     (if i < length ss
      then (case ss ! i of
              InUndo action \<Rightarrow> (fst (undo_settle ok action m), take i ss @ drop (Suc i) ss)
            | InRedo action \<Rightarrow> (fst (redo_settle cfg ok action m), take i ss @ drop (Suc i) ss))
      else (m, ss))"

fun interleaved ::
  "UndoManagerConfig \<Rightarrow> ('p \<Rightarrow> bool) \<Rightarrow> 'p turn list \<Rightarrow> 'p manager \<times> 'p suspended list \<Rightarrow>
     'p manager \<times> 'p suspended list" where
  "interleaved cfg ok [] st = st"
| "interleaved cfg ok (x # xs) st = interleaved cfg ok xs (interleaved_step cfg ok x st)"


section \<open>Values (FirestoreObject) and the diff algebra (diff.ts)\<close>

text \<open>
  A JavaScript value as the diff module sees it.  \<open>JTimestamp seconds nanoseconds\<close> is an
  instance of Firestore's \<open>Timestamp\<close>; \<open>JDeleteField\<close> and \<open>JServerTimestamp\<close> are the
  \<open>FieldValue\<close> sentinels returned by \<open>deleteField()\<close> and \<open>serverTimestamp()\<close>.  A plain
  object is the list of its own enumerable properties in enumeration order; a JavaScript object
  has every key once.  Numbers are integers here (no \<open>NaN\<close>, no fractions).
\<close>

datatype jv =
    JUndefined
  | JNull
  | JBool bool
  | JNum int
  | JStr string
  | JTimestamp int int
  | JDeleteField
  | JServerTimestamp
  | JArr "jv list"
  | JObj "(string \<times> jv) list"

type_synonym obj = "(string \<times> jv) list"

subsection \<open>Property access\<close>

text \<open>\<open>ob\<close> has the own property \<open>key\<close> (\<open>Object.keys(ob).includes(key)\<close>).\<close>

definition obj_has :: "obj \<Rightarrow> string \<Rightarrow> bool" where
  "obj_has ob key = (key \<in> set (map fst ob))"

text \<open>
  The members that every object inherits from \<open>Object.prototype\<close> (ECMAScript, with Annex B):
  the constructor, ten methods, and the accessor \<open>__proto__\<close>.  A read \<open>ob[key]\<close> of a key that
  \<open>ob\<close> does not own finds them: a function, and for \<open>__proto__\<close> the object
  \<open>Object.prototype\<close> itself.
\<close>

definition object_prototype_names :: "string list" where
  "object_prototype_names =
     [''constructor'', ''__defineGetter__'', ''__defineSetter__'', ''hasOwnProperty'',
      ''__lookupGetter__'', ''__lookupSetter__'', ''isPrototypeOf'', ''propertyIsEnumerable'',
      ''toString'', ''valueOf'', ''__proto__'', ''toLocaleString'']"

definition inherited :: "string \<Rightarrow> bool" where
  "inherited key = (key \<in> set object_prototype_names)"

text \<open>\<open>key in ob\<close>: an own property or an inherited one.\<close>

definition has_property :: "obj \<Rightarrow> string \<Rightarrow> bool" where
  "has_property ob key = (obj_has ob key \<or> inherited key)"

text \<open>\<open>ob[key] === undefined || ob[key] === null\<close>: an inherited member is neither.\<close>

definition reads_nullish :: "obj \<Rightarrow> string \<Rightarrow> bool" where
  "reads_nullish ob key =
     (case map_of ob key of
        Some v \<Rightarrow> v = JUndefined \<or> v = JNull
      | None \<Rightarrow> \<not> inherited key)"

text \<open>
  \<open>ob[key]\<close> where the value read is compared with a document value or cloned: the own
  property, \<open>undefined\<close> when there is none.  (An inherited member read at such a place is a
  function; it is not a value of \<open>jv\<close>, and like \<open>undefined\<close> it is equal to no document
  value.  The places where the code tells the two apart use \<open>reads_nullish\<close>, \<open>has_property\<close>
  and \<open>typeof_property\<close>.)
\<close>

definition obj_get :: "obj \<Rightarrow> string \<Rightarrow> jv" where
  "obj_get ob key = (case map_of ob key of Some v \<Rightarrow> v | None \<Rightarrow> JUndefined)"

text \<open>
  \<open>ob[key] = v\<close>: an existing property keeps its place, a new one goes to the end.  (Not for
  the key \<open>__proto__\<close> on an object that does not own it: see \<open>assign\<close> below.  Firestore
  reserves the field names of the form \<open>__name__\<close>.)
\<close>

fun obj_set :: "obj \<Rightarrow> string \<Rightarrow> jv \<Rightarrow> obj" where
  "obj_set [] key v = [(key, v)]"
| "obj_set ((k, w) # rest) key v =
     (if k = key then (k, v) # rest else (k, w) # obj_set rest key v)"

text \<open>\<open>delete ob[key]\<close>.\<close>

definition obj_delete :: "obj \<Rightarrow> string \<Rightarrow> obj" where
  "obj_delete ob key = filter (\<lambda>(k, w). k \<noteq> key) ob"

text \<open>\<open>Object.assign(target, source)\<close>.\<close>

fun object_assign :: "obj \<Rightarrow> obj \<Rightarrow> obj" where
  "object_assign target [] = target"
| "object_assign target ((k, v) # rest) = object_assign (obj_set target k v) rest"

text \<open>Decimal rendering of an array index, as \<open>Object.keys\<close> of an array or a string lists them.\<close>

fun digit :: "nat \<Rightarrow> char" where
  "digit n = ''0123456789'' ! (n mod 10)"

function show_nat :: "nat \<Rightarrow> string" where
  "show_nat n = (if n < 10 then [digit n] else show_nat (n div 10) @ [digit n])"
  by pat_completeness auto
termination
  by (relation "measure id") auto

declare show_nat.simps [simp del]

fun indexed :: "nat \<Rightarrow> jv list \<Rightarrow> obj" where
  "indexed i [] = []"
| "indexed i (x # xs) = (show_nat i, x) # indexed (Suc i) xs"

text \<open>
  The own enumerable properties of a value that is read as a \<open>Record<string, unknown>\<close>:
  \<open>computeDiff\<close> casts \<open>fromValue\<close> this way without checking what it is.  A \<open>FieldValue\<close>
  carries the single field \<open>_methodName\<close>; a \<open>Timestamp\<close> carries \<open>seconds\<close> and
  \<open>nanoseconds\<close> (the two fields \<open>deepClone\<close> reads).
\<close>

fun own_entries :: "jv \<Rightarrow> obj" where
  "own_entries (JObj ob) = ob"
| "own_entries (JArr xs) = indexed 0 xs"
| "own_entries (JStr s) = indexed 0 (map (\<lambda>c. JStr [c]) s)"
| "own_entries (JTimestamp s n) = [(''seconds'', JNum s), (''nanoseconds'', JNum n)]"
| "own_entries JDeleteField = [(''_methodName'', JStr ''deleteField'')]"
| "own_entries JServerTimestamp = [(''_methodName'', JStr ''serverTimestamp'')]"
| "own_entries v = []"

definition own_keys :: "jv \<Rightarrow> string list" where
  "own_keys v = map fst (own_entries v)"

text \<open>
  \<open>from[key]\<close> in \<open>computeDiff\<close>, for any value \<open>from\<close>: an own property, or the \<open>length\<close> of
  an array or a string, and otherwise \<open>undefined\<close>.  An inherited method read here is a
  function: \<open>computeDiff\<close> finds it different from the value of \<open>to\<close>, as it finds
  \<open>undefined\<close>, and a function has no own enumerable property; it is read as \<open>undefined\<close>
  (the properties of the function itself, such as \<open>name\<close> and \<open>length\<close>, are not described).
\<close>

definition get_prop :: "jv \<Rightarrow> string \<Rightarrow> jv" where
  "get_prop v key =
     (case map_of (own_entries v) key of
        Some w \<Rightarrow> w
      | None \<Rightarrow>
          (case v of
             JArr xs \<Rightarrow> if key = ''length'' then JNum (int (length xs)) else JUndefined
           | JStr s \<Rightarrow> if key = ''length'' then JNum (int (length s)) else JUndefined
           | _ \<Rightarrow> JUndefined))"

subsection \<open>isPlainObject, typeof, ===\<close>

fun isPlainObject :: "jv \<Rightarrow> bool" where
  "isPlainObject (JObj ob) = True"
| "isPlainObject v = False"

fun isArray :: "jv \<Rightarrow> bool" where
  "isArray (JArr xs) = True"
| "isArray v = False"

fun typeof :: "jv \<Rightarrow> string" where
  "typeof JUndefined = ''undefined''"
| "typeof (JBool b) = ''boolean''"
| "typeof (JNum n) = ''number''"
| "typeof (JStr s) = ''string''"
| "typeof v = ''object''"

text \<open>
  \<open>a === b\<close>.  Primitives compare by value.  Arrays, objects, timestamps and sentinels compare
  by reference; the values here carry no reference, and two of them are taken to be two
  distinct objects (which is what \<open>deepClone\<close>, a snapshot and a fresh \<open>deleteField()\<close> give).
\<close>

fun strict_eq :: "jv \<Rightarrow> jv \<Rightarrow> bool" where
  "strict_eq JUndefined JUndefined = True"
| "strict_eq JNull JNull = True"
| "strict_eq (JBool a) (JBool b) = (a = b)"
| "strict_eq (JNum a) (JNum b) = (a = b)"
| "strict_eq (JStr a) (JStr b) = (a = b)"
| "strict_eq a b = False"

text \<open>\<open>xs[i]\<close> of an array: \<open>undefined\<close> past the end.\<close>

definition arr_get :: "jv list \<Rightarrow> nat \<Rightarrow> jv" where
  "arr_get xs i = (if i < length xs then xs ! i else JUndefined)"

subsection \<open>isDeepEqual\<close>

fun isDeepEqual :: "jv \<Rightarrow> jv \<Rightarrow> bool"
  and every_item :: "jv list \<Rightarrow> jv list \<Rightarrow> nat \<Rightarrow> bool"
  and every_key :: "obj \<Rightarrow> obj \<Rightarrow> bool" where
  "isDeepEqual a b =
     (if strict_eq a b then True
      else if a = JNull \<or> b = JNull then False
      else if typeof a \<noteq> typeof b then False
      else
        (case a of
           JArr xs \<Rightarrow>
             (case b of
                JArr ys \<Rightarrow> if length xs \<noteq> length ys then False else every_item xs ys 0
              | _ \<Rightarrow> False)
         | JTimestamp s n \<Rightarrow>
             (case b of JTimestamp s' n' \<Rightarrow> s = s' \<and> n = n' | _ \<Rightarrow> False)
         | JObj x \<Rightarrow>
             (case b of
                JObj y \<Rightarrow> if length x \<noteq> length y then False else every_key x y
              | _ \<Rightarrow> False)
         | _ \<Rightarrow> False))"
| "every_item [] ys i = True"
| "every_item (x # xs) ys i = (isDeepEqual x (arr_get ys i) \<and> every_item xs ys (Suc i))"
| "every_key [] y = True"
| "every_key ((key, v) # rest) y = (isDeepEqual v (obj_get y key) \<and> every_key rest y)"


subsection \<open>computeDiff\<close>

text \<open>The second loop of \<open>computeDiff\<close>: a key of \<open>from\<close> for which \<open>to[key]\<close> is \<open>undefined\<close>
  or \<open>null\<close> is marked for deletion.  \<open>to[key]\<close> is read through the prototype chain: a key that
  \<open>to\<close> does not own but inherits (\<open>constructor\<close>, \<open>toString\<close>, ...) is not marked.\<close>

fun removed :: "obj \<Rightarrow> string list \<Rightarrow> obj \<Rightarrow> obj" where
  "removed to [] diff = diff"
| "removed to (key # keys) diff =
     removed to keys
       (if reads_nullish to key then obj_set diff key JDeleteField else diff)"

text \<open>\<open>v ?? {}\<close>.\<close>

fun nullish_to_empty :: "jv \<Rightarrow> jv" where
  "nullish_to_empty JUndefined = JObj []"
| "nullish_to_empty JNull = JObj []"
| "nullish_to_empty v = v"

text \<open>
  \<open>computeDiff from to\<close> for a \<open>to\<close> that is an object; \<open>changed\<close> is its first loop, over
  the properties of \<open>to\<close> that remain, with the diff built so far.  \<open>from\<close> is whatever value
  stands at that place (the nested call casts it).  The case \<open>to === undefined\<close> of the exported
  function is \<open>computeDiff_opt\<close> below.
\<close>

function computeDiff :: "jv \<Rightarrow> obj \<Rightarrow> obj"
  and changed :: "jv \<Rightarrow> obj \<Rightarrow> obj \<Rightarrow> obj" where
  "computeDiff from to = removed to (own_keys from) (changed from to [])"
| "changed from [] diff = diff"
| "changed from ((key, toValue) # rest) diff =
     changed from rest
       (let fromValue = get_prop from key in
        case toValue of
          JArr xs \<Rightarrow> if \<not> isDeepEqual fromValue toValue then obj_set diff key toValue else diff
        | JObj toObj \<Rightarrow>
            if \<not> isDeepEqual fromValue toValue
            then
              (let nestedDiff = computeDiff (nullish_to_empty fromValue) toObj
               in if length nestedDiff > 0 then obj_set diff key (JObj nestedDiff) else diff)
            else diff
        | _ \<Rightarrow>
            if toValue \<noteq> JUndefined \<and> \<not> strict_eq fromValue toValue
            then obj_set diff key toValue else diff)"
  by pat_completeness auto
termination
  by (relation "measure (\<lambda>x. case x of Inl (f, t) \<Rightarrow> 2 * size (JObj t) + 1
                                      | Inr (f, es, d) \<Rightarrow> 2 * size (JObj es))") auto

definition computeDiff_opt :: "jv \<Rightarrow> obj option \<Rightarrow> jv" where
  "computeDiff_opt from to =
     (case to of None \<Rightarrow> JDeleteField | Some t \<Rightarrow> JObj (computeDiff from t))"

subsection \<open>applyDiffMutable, deepClone, applyDiff, computeUndoDiff\<close>

text \<open>\<open>now\<close> is the pair (seconds, nanoseconds) that \<open>Timestamp.now()\<close> gives during the call.
  The updated target is returned.\<close>

function applyDiffMutable :: "int \<times> int \<Rightarrow> obj \<Rightarrow> obj \<Rightarrow> obj" where
  "applyDiffMutable now target [] = target"
| "applyDiffMutable now target ((key, value) # rest) =
     applyDiffMutable now
       (case value of
          JDeleteField \<Rightarrow> obj_delete target key
        | JServerTimestamp \<Rightarrow> obj_set target key (JTimestamp (fst now) (snd now))
        | JObj nested \<Rightarrow>
            (let target1 =
                   (if \<not> isPlainObject (obj_get target key)
                    then obj_set target key (JObj []) else target)
             in obj_set target1 key
                  (JObj (applyDiffMutable now (own_entries (obj_get target1 key)) nested)))
        | _ \<Rightarrow> obj_set target key value)
       rest"
  by pat_completeness auto
termination
  by (relation "measure (\<lambda>(n, t, d). size (JObj d))") auto

text \<open>A \<open>FieldValue\<close> is an object that is neither a \<open>Timestamp\<close> nor an array: \<open>deepClone\<close>
  copies its own properties into a plain object.\<close>

fun deepClone :: "jv \<Rightarrow> jv" where
  "deepClone (JArr xs) = JArr (map deepClone xs)"
| "deepClone (JObj ob) = JObj (map (\<lambda>(k, v). (k, deepClone v)) ob)"
| "deepClone JDeleteField = JObj (own_entries JDeleteField)"
| "deepClone JServerTimestamp = JObj (own_entries JServerTimestamp)"
| "deepClone v = v"

definition deepClone_obj :: "obj \<Rightarrow> obj" where
  "deepClone_obj ob = own_entries (deepClone (JObj ob))"

definition applyDiff :: "int \<times> int \<Rightarrow> obj \<Rightarrow> obj \<Rightarrow> obj" where
  "applyDiff now state diff = applyDiffMutable now (deepClone_obj state) diff"


subsection \<open>flattenDiff, unflattenDiff\<close>

text \<open>Has a function-valued \<open>isEqual\<close>: the two sentinels, and \<open>Timestamp\<close>.\<close>

fun isFieldValueSentinel :: "jv \<Rightarrow> bool" where
  "isFieldValueSentinel JDeleteField = True"
| "isFieldValueSentinel JServerTimestamp = True"
| "isFieldValueSentinel (JTimestamp s n) = True"
| "isFieldValueSentinel v = False"

function flattenDiff :: "obj \<Rightarrow> string \<Rightarrow> obj"
  and flatten_loop :: "obj \<Rightarrow> string \<Rightarrow> obj \<Rightarrow> obj" where
  "flattenDiff diff prefix = flatten_loop diff prefix []"
| "flatten_loop [] prefix result = result"
| "flatten_loop ((key, value) # rest) prefix result =
     flatten_loop rest prefix
       (let pth = (if prefix \<noteq> [] then prefix @ ''.'' @ key else key) in
        if isFieldValueSentinel value then obj_set result pth value
        else if isArray value then obj_set result pth value
        else
          (case value of
             JObj nested \<Rightarrow> object_assign result (flattenDiff nested pth)
           | _ \<Rightarrow> obj_set result pth value))"
  by pat_completeness auto
termination
  by (relation "measure (\<lambda>x. case x of Inl (d, p) \<Rightarrow> 2 * size (JObj d) + 1
                                      | Inr (d, p, r) \<Rightarrow> 2 * size (JObj d))") auto

text \<open>\<open>s.split('.')\<close>.\<close>

fun split_dot :: "string \<Rightarrow> string list" where
  "split_dot [] = [[]]"
| "split_dot (c # cs) =
     (if c = CHR ''.'' then [] # split_dot cs
      else (case split_dot cs of p # ps \<Rightarrow> (c # p) # ps | [] \<Rightarrow> [[c]]))"

text \<open>\<open>typeof ob[key]\<close>, read through the prototype chain.\<close>

definition typeof_property :: "obj \<Rightarrow> string \<Rightarrow> string" where
  "typeof_property ob key =
     (case map_of ob key of
        Some v \<Rightarrow> typeof v
      | None \<Rightarrow>
          if key = ''__proto__'' then ''object''
          else if inherited key then ''function'' else ''undefined'')"

text \<open>
  \<open>unflattenDiff\<close> walks the parts of one path, creating objects on the way, and assigns at the
  last part.  When the walk meets \<open>null\<close> (whose \<open>typeof\<close> is \<open>'object'\<close>) JavaScript throws a
  \<open>TypeError\<close>.  When it meets an array, a timestamp or a sentinel, JavaScript writes a property
  into that object, which no value of \<open>jv\<close> describes: \<open>NonPlainTarget\<close>.  When it meets the
  part \<open>__proto__\<close> on an object that does not own it, \<open>part in current\<close> holds and
  \<open>typeof current[part]\<close> is \<open>'object'\<close>: the walk goes on in \<open>Object.prototype\<close> and the value
  is written there, into the object that all objects share, and not into the result; and an
  object or \<open>null\<close> assigned to \<open>__proto__\<close> replaces the prototype of the object assigned to:
  \<open>PrototypeTarget\<close> in both cases.  Any other value assigned to \<open>__proto__\<close> is dropped by the
  inherited setter.
\<close>

datatype js_error = TypeError | NonPlainTarget | PrototypeTarget

text \<open>\<open>current[lastPart] = v\<close> in \<open>unflattenDiff\<close>.\<close>

definition assign :: "obj \<Rightarrow> string \<Rightarrow> jv \<Rightarrow> js_error + obj" where
  "assign ob key v =
     (if key = ''__proto__'' \<and> \<not> obj_has ob key
      then (if typeof v = ''object'' then Inl PrototypeTarget else Inr ob)
      else Inr (obj_set ob key v))"

fun set_path :: "obj \<Rightarrow> string list \<Rightarrow> jv \<Rightarrow> js_error + obj" where
  "set_path current [] v = Inr current"
| "set_path current [lastPart] v = assign current lastPart v"
| "set_path current (part # parts) v =
     (let current1 =
            (if \<not> has_property current part \<or> typeof_property current part \<noteq> ''object''
             then obj_set current part (JObj []) else current)
      in case map_of current1 part of
           None \<Rightarrow> Inl PrototypeTarget
         | Some (JObj child) \<Rightarrow>
             (case set_path child parts v of
                Inr child' \<Rightarrow> Inr (obj_set current1 part (JObj child'))
              | Inl e \<Rightarrow> Inl e)
         | Some JNull \<Rightarrow> Inl TypeError
         | Some other \<Rightarrow> Inl NonPlainTarget)"

fun unflatten_loop :: "obj \<Rightarrow> obj \<Rightarrow> js_error + obj" where
  "unflatten_loop [] result = Inr result"
| "unflatten_loop ((pth, v) # rest) result =
     (case set_path result (split_dot pth) v of
        Inr result' \<Rightarrow> unflatten_loop rest result'
      | Inl e \<Rightarrow> Inl e)"

definition unflattenDiff :: "obj \<Rightarrow> js_error + obj" where
  "unflattenDiff flatDiff = unflatten_loop flatDiff []"


section \<open>Resource subscriptions (document.ts, collection.ts)\<close>

record UpdateOptions =
  undoable :: "bool option"
  undoGroupId :: "string option"

datatype resource_kind = Document | Collection

datatype operation = Read | Write

datatype batch_op = BatchDelete string | BatchSet string jv | BatchUpdate string obj

text \<open>
  What a subscription does to its collaborators, in order: \<open>notify()\<close> (subscribers and
  \<open>store.reportSyncState\<close>), a call of \<open>onPushUndo\<close>, a remote write, \<open>store.reportError\<close>.
  The two closures handed to \<open>onPushUndo\<close> are \<open>() => updateState(undoDiff, {undoable: false})\<close>
  and the same with \<open>redoDiff\<close>; \<open>PushedUndo\<close> records the two diffs and the options.
\<close>

datatype effect =
    Notified
  | PushedUndo obj obj "UpdateOptions option"
  | SetDoc obj
  | UpdateDoc obj
  | DeleteDoc
  | BatchCommit "batch_op list"
  | ReportedError resource_kind string operation

text \<open>The fields the two kinds of subscription share: the internal state record, the closure
  variables, and the effects so far.  \<open>autosaveTimeout\<close> tells whether a flush timer is
  pending.\<close>

record subscription =
  syncState :: "obj option"
  localState :: "obj option"
  isLoading :: bool
  error :: "string option"
  waitingForUpdate :: bool
  inflightLocalState :: "obj option"
  pendingUndoOptions :: "UpdateOptions option"
  autosaveTimeout :: bool
  minLoadTimeElapsed :: bool
  loaded :: bool
  effects :: "effect list"

record DocumentInternalState = subscription +
  isSetOperation :: bool
  retryTimeout :: bool

record CollectionInternalState = subscription +
  isActive :: bool

record SubscriptionConfig =
  isReadOnly :: bool
  autosave :: int
  onPushUndo :: bool
  collectionPath :: string

record DocumentConfig = SubscriptionConfig +
  documentId :: string

definition sub_notify :: "'a subscription_scheme \<Rightarrow> 'a subscription_scheme" where
  "sub_notify s = s\<lparr>effects := effects s @ [Notified]\<rparr>"

text \<open>\<open>scheduleAutosave\<close> clears the pending timer and starts one when \<open>autosave > 0\<close>.\<close>

definition scheduleAutosave ::
  "'c SubscriptionConfig_scheme \<Rightarrow> 'a subscription_scheme \<Rightarrow> 'a subscription_scheme" where
  "scheduleAutosave cfg s = s\<lparr>autosaveTimeout := (autosave cfg > 0)\<rparr>"

text \<open>\<open>options?.undoable !== false\<close>.\<close>

definition undoable_not_false :: "UpdateOptions option \<Rightarrow> bool" where
  "undoable_not_false opts =
     (case opts of None \<Rightarrow> True | Some ov \<Rightarrow> undoable ov \<noteq> Some False)"

subsection \<open>createDocumentSubscription\<close>

definition doc_initial :: DocumentInternalState where
  "doc_initial =
     \<lparr>syncState = None, localState = None, isLoading = True, error = None,
      waitingForUpdate = False, inflightLocalState = None, pendingUndoOptions = None,
      autosaveTimeout = False, minLoadTimeElapsed = False, loaded = False, effects = [],
      isSetOperation = False, retryTimeout = False\<rparr>"

definition doc_getMergedData :: "DocumentInternalState \<Rightarrow> obj option" where
  "doc_getMergedData s = (case localState s of Some l \<Rightarrow> Some l | None \<Rightarrow> syncState s)"

definition doc_updateState ::
  "DocumentConfig \<Rightarrow> int \<times> int \<Rightarrow> obj \<Rightarrow> UpdateOptions \<Rightarrow> DocumentInternalState \<Rightarrow> DocumentInternalState" where
  "doc_updateState cfg now diff undoOptions s =
     (if isReadOnly cfg then s
      else
        (case doc_getMergedData s of
           None \<Rightarrow> s
         | Some currentData \<Rightarrow>
             (let newLocalState = applyDiffMutable now (deepClone_obj currentData) diff
              in scheduleAutosave cfg
                   (sub_notify
                      (s\<lparr>localState := Some newLocalState,
                         pendingUndoOptions := Some undoOptions,
                         isSetOperation := False\<rparr>)))))"

definition doc_setData ::
  "DocumentConfig \<Rightarrow> obj \<Rightarrow> UpdateOptions \<Rightarrow> DocumentInternalState \<Rightarrow> DocumentInternalState" where
  "doc_setData cfg data undoOptions s =
     (if isReadOnly cfg then s
      else scheduleAutosave cfg
             (sub_notify
                (s\<lparr>localState := Some (deepClone_obj data),
                   pendingUndoOptions := Some undoOptions,
                   isSetOperation := True\<rparr>)))"

text \<open>
  \<open>sync\<close> up to its \<open>await\<close>: everything before the remote write is answered.  A write that
  succeeds changes nothing more; a write that fails runs the \<open>catch\<close> block, \<open>doc_sync_failed\<close>.
\<close>

definition doc_sync :: "DocumentConfig \<Rightarrow> DocumentInternalState \<Rightarrow> DocumentInternalState" where
  "doc_sync cfg s =
     (case localState s of
        None \<Rightarrow> s
      | Some l \<Rightarrow>
          (case syncState s of
             None \<Rightarrow> s
           | Some sy \<Rightarrow>
               if isDeepEqual (JObj l) (JObj sy)
               then sub_notify (s\<lparr>localState := None, inflightLocalState := None\<rparr>)
               else
                 (let diff = computeDiff (JObj sy) l;
                      currentUndoOptions = pendingUndoOptions s;
                      s1 = s\<lparr>inflightLocalState := Some (deepClone_obj l),
                             pendingUndoOptions := None\<rparr>;
                      s2 = (if undoable_not_false currentUndoOptions \<and> onPushUndo cfg
                            then s1\<lparr>effects := effects s1 @
                                      [PushedUndo (computeDiff (JObj l) sy) diff currentUndoOptions]\<rparr>
                            else s1);
                      wasSetOperation = isSetOperation s2;
                      s3 = s2\<lparr>waitingForUpdate := True, isSetOperation := False\<rparr>
                  in s3\<lparr>effects := effects s3 @
                           [if wasSetOperation then SetDoc l else UpdateDoc (flattenDiff diff [])]\<rparr>)))"

definition doc_sync_failed :: "DocumentConfig \<Rightarrow> DocumentInternalState \<Rightarrow> DocumentInternalState" where
  "doc_sync_failed cfg s =
     (let s1 = s\<lparr>waitingForUpdate := False, inflightLocalState := None\<rparr>
      in s1\<lparr>effects := effects s1 @
               [ReportedError Document (collectionPath cfg @ ''/'' @ documentId cfg) Write]\<rparr>)"

definition doc_handleSnapshot ::
  "int \<times> int \<Rightarrow> obj \<Rightarrow> DocumentInternalState \<Rightarrow> DocumentInternalState" where
  "doc_handleSnapshot now newSyncData s =
     (let s1 = s\<lparr>syncState := Some newSyncData\<rparr>;
          s2 = (if waitingForUpdate s1
                then
                  (let inflightState = inflightLocalState s1;
                       s1' = s1\<lparr>waitingForUpdate := False, inflightLocalState := None\<rparr>
                   in case inflightState of
                        None \<Rightarrow> s1'\<lparr>localState := None\<rparr>
                      | Some inflight \<Rightarrow>
                          (case localState s1' of
                             None \<Rightarrow> s1'\<lparr>localState := None\<rparr>
                           | Some currentLocal \<Rightarrow>
                               if \<not> isDeepEqual (JObj currentLocal) (JObj inflight)
                               then
                                 (let changesSinceInflight = computeDiff (JObj inflight) currentLocal;
                                      rebasedLocalState =
                                        applyDiffMutable now (deepClone_obj newSyncData)
                                          changesSinceInflight
                                  in s1'\<lparr>localState := Some rebasedLocalState\<rparr>)
                               else s1'\<lparr>localState := None\<rparr>))
                else s1);
          s3 = (if minLoadTimeElapsed s2 then s2\<lparr>isLoading := False\<rparr> else s2)
      in sub_notify (s3\<lparr>loaded := True\<rparr>))"

subsection \<open>createCollectionSubscription\<close>

definition col_getMergedData :: "CollectionInternalState \<Rightarrow> obj" where
  "col_getMergedData s =
     (case localState s of
        Some l \<Rightarrow> l
      | None \<Rightarrow> (case syncState s of Some sy \<Rightarrow> sy | None \<Rightarrow> []))"

text \<open>
  \<open>docData.id = docId\<close> for every entry that is truthy and of type \<open>'object'\<close>.  On an array or
  a timestamp the assignment adds a property that \<open>jv\<close> has no place for; such an entry is left
  as it is.
\<close>

definition stamp_ids :: "obj \<Rightarrow> obj" where
  "stamp_ids ob =
     map (\<lambda>(docId, docData).
            (docId, (case docData of
                       JObj d \<Rightarrow> JObj (obj_set d ''id'' (JStr docId))
                     | _ \<Rightarrow> docData))) ob"

definition col_updateState ::
  "SubscriptionConfig \<Rightarrow> int \<times> int \<Rightarrow> obj \<Rightarrow> UpdateOptions \<Rightarrow> CollectionInternalState
     \<Rightarrow> CollectionInternalState" where
  "col_updateState cfg now diff undoOptions s =
     (if isReadOnly cfg then s
      else
        (let currentData = col_getMergedData s;
             newLocalState = stamp_ids (applyDiffMutable now (deepClone_obj currentData) diff)
         in scheduleAutosave cfg
              (sub_notify
                 (s\<lparr>localState := Some newLocalState,
                    pendingUndoOptions := Some undoOptions\<rparr>))))"

text \<open>\<open>{ ...data, id }\<close>.\<close>

definition with_id :: "obj \<Rightarrow> string \<Rightarrow> jv" where
  "with_id data docId = JObj (obj_set data ''id'' (JStr docId))"

definition col_addDocument ::
  "SubscriptionConfig \<Rightarrow> string \<Rightarrow> obj \<Rightarrow> UpdateOptions \<Rightarrow> CollectionInternalState
     \<Rightarrow> CollectionInternalState" where
  "col_addDocument cfg docId data undoOptions s =
     (if isReadOnly cfg then s
      else
        (let currentData = col_getMergedData s;
             newLocalState = obj_set (deepClone_obj currentData) docId (with_id data docId)
         in scheduleAutosave cfg
              (sub_notify
                 (s\<lparr>localState := Some newLocalState,
                    pendingUndoOptions := Some undoOptions\<rparr>))))"

definition col_removeDocument ::
  "SubscriptionConfig \<Rightarrow> string \<Rightarrow> UpdateOptions \<Rightarrow> CollectionInternalState
     \<Rightarrow> CollectionInternalState" where
  "col_removeDocument cfg docId undoOptions s =
     (if isReadOnly cfg then s
      else
        (let currentData = col_getMergedData s
         in if \<not> obj_has currentData docId then s
            else
              (let newLocalState = obj_delete (deepClone_obj currentData) docId
               in scheduleAutosave cfg
                    (sub_notify
                       (s\<lparr>localState := Some newLocalState,
                          pendingUndoOptions := Some undoOptions\<rparr>)))))"

text \<open>The batch that \<open>sync\<close> builds from the per-document diff.\<close>

fun batch_ops :: "obj \<Rightarrow> obj \<Rightarrow> batch_op list" where
  "batch_ops sy [] = []"
| "batch_ops sy ((docId, docDiff) # rest) =
     (if docDiff = JDeleteField then BatchDelete docId
      else if \<not> obj_has sy docId then BatchSet docId docDiff
      else BatchUpdate docId (flattenDiff (own_entries docDiff) []))
     # batch_ops sy rest"

definition col_sync ::
  "SubscriptionConfig \<Rightarrow> CollectionInternalState \<Rightarrow> CollectionInternalState" where
  "col_sync cfg s =
     (case localState s of
        None \<Rightarrow> s
      | Some l \<Rightarrow>
          (case syncState s of
             None \<Rightarrow> s
           | Some sy \<Rightarrow>
               if isDeepEqual (JObj l) (JObj sy)
               then sub_notify (s\<lparr>localState := None, inflightLocalState := None\<rparr>)
               else
                 (let diff = computeDiff (JObj sy) l;
                      currentUndoOptions = pendingUndoOptions s;
                      s1 = s\<lparr>inflightLocalState := Some (deepClone_obj l),
                             pendingUndoOptions := None\<rparr>;
                      s2 = (if undoable_not_false currentUndoOptions \<and> onPushUndo cfg
                            then s1\<lparr>effects := effects s1 @
                                      [PushedUndo (computeDiff (JObj l) sy) diff currentUndoOptions]\<rparr>
                            else s1);
                      s3 = s2\<lparr>waitingForUpdate := True\<rparr>
                  in s3\<lparr>effects := effects s3 @ [BatchCommit (batch_ops sy diff)]\<rparr>)))"

definition col_sync_failed ::
  "SubscriptionConfig \<Rightarrow> CollectionInternalState \<Rightarrow> CollectionInternalState" where
  "col_sync_failed cfg s =
     (let s1 = s\<lparr>waitingForUpdate := False, inflightLocalState := None\<rparr>
      in s1\<lparr>effects := effects s1 @ [ReportedError Collection (collectionPath cfg) Write]\<rparr>)"

fun snapshot_state :: "(string \<times> obj) list \<Rightarrow> obj \<Rightarrow> obj" where
  "snapshot_state [] newSyncState = newSyncState"
| "snapshot_state ((docId, data) # docs) newSyncState =
     snapshot_state docs (obj_set newSyncState docId (with_id data docId))"

definition col_handleSnapshot ::
  "int \<times> int \<Rightarrow> (string \<times> obj) list \<Rightarrow> CollectionInternalState \<Rightarrow> CollectionInternalState" where
  "col_handleSnapshot now docs s =
     (let newSyncState = snapshot_state docs [];
          s1 = s\<lparr>syncState := Some newSyncState\<rparr>;
          s2 = (if waitingForUpdate s1
                then
                  (let inflightState = inflightLocalState s1;
                       s1' = s1\<lparr>waitingForUpdate := False, inflightLocalState := None\<rparr>
                   in case inflightState of
                        None \<Rightarrow> s1'\<lparr>localState := None\<rparr>
                      | Some inflight \<Rightarrow>
                          (case localState s1' of
                             None \<Rightarrow> s1'\<lparr>localState := None\<rparr>
                           | Some currentLocal \<Rightarrow>
                               if \<not> isDeepEqual (JObj currentLocal) (JObj inflight)
                               then
                                 (let changesSinceInflight = computeDiff (JObj inflight) currentLocal;
                                      rebasedLocalState =
                                        stamp_ids
                                          (applyDiffMutable now (deepClone_obj newSyncState)
                                             changesSinceInflight)
                                  in s1'\<lparr>localState := Some rebasedLocalState\<rparr>)
                               else s1'\<lparr>localState := None\<rparr>))
                else s1);
          s3 = (if minLoadTimeElapsed s2 then s2\<lparr>isLoading := False\<rparr> else s2)
      in sub_notify (s3\<lparr>loaded := True\<rparr>))"


definition col_initial :: "bool \<Rightarrow> CollectionInternalState" where
  "col_initial lazy =
     \<lparr>syncState = None, localState = None, isLoading = (\<not> lazy), error = None,
      waitingForUpdate = False, inflightLocalState = None, pendingUndoOptions = None,
      autosaveTimeout = False, minLoadTimeElapsed = False, loaded = False, effects = [],
      isActive = (\<not> lazy)\<rparr>"

text \<open>The calls a collection subscription receives, in the order of the event queue: edits
  through the handle, a flush, the failure of the pending batch, a snapshot.\<close>

datatype col_call =
    ColUpdate "int \<times> int" obj UpdateOptions
  | ColAdd string obj UpdateOptions
  | ColRemove string UpdateOptions
  | ColSync
  | ColSyncFailed
  | ColSnapshot "int \<times> int" "(string \<times> obj) list"

fun col_step :: "SubscriptionConfig \<Rightarrow> col_call \<Rightarrow> CollectionInternalState \<Rightarrow> CollectionInternalState" where
  "col_step cfg (ColUpdate now diff opts) s = col_updateState cfg now diff opts s"
| "col_step cfg (ColAdd docId data opts) s = col_addDocument cfg docId data opts s"
| "col_step cfg (ColRemove docId opts) s = col_removeDocument cfg docId opts s"
| "col_step cfg ColSync s = col_sync cfg s"
| "col_step cfg ColSyncFailed s = col_sync_failed cfg s"
| "col_step cfg (ColSnapshot now docs) s = col_handleSnapshot now docs s"

fun col_run :: "SubscriptionConfig \<Rightarrow> col_call list \<Rightarrow> CollectionInternalState \<Rightarrow> CollectionInternalState" where
  "col_run cfg [] s = s"
| "col_run cfg (c # cs) s = col_run cfg cs (col_step cfg c s)"

section \<open>Notions used in the statements\<close>


fun is_write :: "effect \<Rightarrow> bool" where
  "is_write (SetDoc d) = True"
| "is_write (UpdateDoc d) = True"
| "is_write DeleteDoc = True"
| "is_write (BatchCommit ops) = True"
| "is_write e = False"

text \<open>A document subscription of \<open>projects/p1\<close> that may write and has an \<open>onPushUndo\<close>
  callback, and the options of a call that passes none.\<close>

definition example_doc :: DocumentConfig where
  "example_doc =
     \<lparr>isReadOnly = False, autosave = 1000, onPushUndo = True,
      collectionPath = ''projects'', documentId = ''p1''\<rparr>"

definition example_col :: SubscriptionConfig where
  "example_col =
     \<lparr>isReadOnly = False, autosave = 1000, onPushUndo = True, collectionPath = ''spaces''\<rparr>"

definition no_options :: UpdateOptions where
  "no_options = \<lparr>undoable = None, undoGroupId = None\<rparr>"

text \<open>Every entry of a keyed state carries its key as \<open>id\<close>; and the same for the entries
  that are plain objects only.\<close>

definition ids_stamped :: "obj \<Rightarrow> bool" where
  "ids_stamped ob = list_all (\<lambda>(k, v). get_prop v ''id'' = JStr k) ob"

definition object_ids_stamped :: "obj \<Rightarrow> bool" where
  "object_ids_stamped ob = list_all (\<lambda>(k, v). isPlainObject v \<longrightarrow> get_prop v ''id'' = JStr k) ob"

definition state_ids_stamped :: "CollectionInternalState \<Rightarrow> bool" where
  "state_ids_stamped s =
     ((case localState s of Some l \<Rightarrow> object_ids_stamped l | None \<Rightarrow> True)
      \<and> (case syncState s of Some sy \<Rightarrow> object_ids_stamped sy | None \<Rightarrow> True))"

text \<open>No entry is a sentinel, and the plain objects carry their key.\<close>

definition entries_ok :: "obj \<Rightarrow> bool" where
  "entries_ok ob =
     list_all (\<lambda>(k, v). v \<noteq> JDeleteField \<and> v \<noteq> JServerTimestamp
                 \<and> (isPlainObject v \<longrightarrow> get_prop v ''id'' = JStr k)) ob"

definition no_sentinel_entry :: "obj \<Rightarrow> bool" where
  "no_sentinel_entry ob = list_all (\<lambda>(k, v). v \<noteq> JDeleteField \<and> v \<noteq> JServerTimestamp) ob"

text \<open>The invariant of a collection subscription.\<close>

definition state_ok :: "CollectionInternalState \<Rightarrow> bool" where
  "state_ok s =
     ((case localState s of Some l \<Rightarrow> entries_ok l | None \<Rightarrow> True)
      \<and> (case syncState s of Some sy \<Rightarrow> entries_ok sy | None \<Rightarrow> True))"

text \<open>
  The values a document can hold: no \<open>FieldValue\<close> sentinel anywhere inside (they live in
  diffs only), and every object has each of its keys once.
\<close>

fun is_data :: "jv \<Rightarrow> bool"
  and all_data :: "jv list \<Rightarrow> bool"
  and fields_data :: "obj \<Rightarrow> bool" where
  "is_data JDeleteField = False"
| "is_data JServerTimestamp = False"
| "is_data (JArr xs) = all_data xs"
| "is_data (JObj ob) = (distinct (map fst ob) \<and> fields_data ob)"
| "is_data v = True"
| "all_data [] = True"
| "all_data (x # xs) = (is_data x \<and> all_data xs)"
| "fields_data [] = True"
| "fields_data ((k, v) # rest) = (is_data v \<and> fields_data rest)"




text \<open>
  A diff that \<open>flattenDiff\<close> can encode: through all nested objects, every key is free of
  \<open>'.'\<close>, is not \<open>__proto__\<close> and occurs once in its object, and no nested object is empty.
\<close>

function fields_flattenable :: "obj \<Rightarrow> bool" where
  "fields_flattenable [] = True"
| "fields_flattenable ((k, v) # rest) =
     (CHR ''.'' \<notin> set k \<and> k \<noteq> ''__proto__''
      \<and> (case v of
            JObj n \<Rightarrow> n \<noteq> [] \<and> distinct (map fst n) \<and> fields_flattenable n
          | _ \<Rightarrow> True)
      \<and> fields_flattenable rest)"
  by pat_completeness auto
termination
  by (relation "measure (\<lambda>ob. size (JObj ob))") auto

definition flattenable :: "obj \<Rightarrow> bool" where
  "flattenable d = (distinct (map fst d) \<and> fields_flattenable d)"

text \<open>\<open>parts.join('.')\<close>.\<close>

fun join_dot :: "string list \<Rightarrow> string" where
  "join_dot [] = []"
| "join_dot [k] = k"
| "join_dot (k # ks) = k @ ''.'' @ join_dot ks"

text \<open>The leaves of a nested diff with their key paths, in the order \<open>flattenDiff\<close> visits
  them.\<close>

function leaves :: "obj \<Rightarrow> (string list \<times> jv) list" where
  "leaves [] = []"
| "leaves ((k, v) # rest) =
     (case v of
        JObj n \<Rightarrow> map (\<lambda>(ps, w). (k # ps, w)) (leaves n)
      | _ \<Rightarrow> [([k], v)])
     @ leaves rest"
  by pat_completeness auto
termination
  by (relation "measure (\<lambda>ob. size (JObj ob))") auto

text \<open>\<open>unflattenDiff\<close>'s loop on paths that are already split.\<close>

fun ins_all :: "(string list \<times> jv) list \<Rightarrow> obj \<Rightarrow> js_error + obj" where
  "ins_all [] result = Inr result"
| "ins_all ((ps, v) # rest) result =
     (case set_path result ps v of
        Inr result' \<Rightarrow> ins_all rest result'
      | Inl e \<Rightarrow> Inl e)"

text \<open>The flat entries of the leaves of \<open>es\<close>, for an object that sits at the key path
  \<open>pre\<close>.\<close>

definition flat_paths :: "string list \<Rightarrow> obj \<Rightarrow> obj" where
  "flat_paths pre es = map (\<lambda>(ps, v). (join_dot (pre @ ps), v)) (leaves es)"








section \<open>Evaluation and unfolding\<close>

text \<open>The defining equations with a variable on the left are unfolded on request only.\<close>

declare isDeepEqual.simps(1) [simp del]
declare computeDiff.simps [simp del]
declare changed.simps(2) [simp del]
declare flattenDiff.simps [simp del]
declare flatten_loop.simps(2) [simp del]

lemmas eval_simps =
  isDeepEqual.simps(1) computeDiff.simps changed.simps flattenDiff.simps flatten_loop.simps
  show_nat.simps

lemmas doc_defs =
  doc_handleSnapshot_def doc_updateState_def doc_setData_def doc_sync_def doc_sync_failed_def
  doc_getMergedData_def doc_initial_def sub_notify_def scheduleAutosave_def
  undoable_not_false_def applyDiff_def deepClone_obj_def

lemmas eval_defs =
  obj_get_def get_prop_def own_keys_def obj_delete_def obj_has_def reads_nullish_def
  has_property_def typeof_property_def assign_def inherited_def object_prototype_names_def

section \<open>Undo/redo manager: bounded history and grouping\<close>

lemma undoStack_navigate [simp]: "undoStack (navigate cfg a m) = undoStack m"
  by (simp add: navigate_def split: option.splits)

lemma redoStack_navigate [simp]: "redoStack (navigate cfg a m) = redoStack m"
  by (simp add: navigate_def split: option.splits)

lemma length_push:
  "length (undoStack m) \<le> maxLength cfg \<Longrightarrow> length (undoStack (push cfg a m)) \<le> maxLength cfg"
  by (auto simp: push_def notify_def Let_def)

lemma length_undo_op:
  "length (undoStack m) \<le> maxLength cfg \<Longrightarrow>
   length (undoStack (fst (undo_op cfg ok m))) \<le> maxLength cfg"
  by (auto simp: undo_op_def undo_begin_def undo_settle_def notify_def Let_def)

lemma length_redo_op:
  "length (undoStack m) \<le> maxLength cfg \<Longrightarrow>
   length (undoStack (fst (redo_op cfg ok m))) \<le> maxLength cfg"
  by (auto simp: redo_op_def redo_begin_def redo_settle_def notify_def Let_def)

lemma length_step:
  "length (undoStack m) \<le> maxLength cfg \<Longrightarrow>
   length (undoStack (step cfg ok x m)) \<le> maxLength cfg"
  by (cases x) (simp_all add: length_push length_undo_op length_redo_op clear_def notify_def)

lemma length_exec:
  "length (undoStack m) \<le> maxLength cfg \<Longrightarrow>
   length (undoStack (exec cfg ok xs m)) \<le> maxLength cfg"
  by (induction xs arbitrary: m) (simp_all add: length_step)

lemma run_all_resolve: "snd (run (\<lambda>p. True) q) = True"
  by (induction q) (auto split: prod.splits)

lemma redo_op_recaps:
  "undoStack (fst (redo_op cfg (\<lambda>p. True) (m\<lparr>redoStack := rs @ [a]\<rparr>))) =
     (if length (undoStack m) + 1 > maxLength cfg
      then tl (undoStack m @ [a]) else undoStack m @ [a])"
  by (simp add: redo_op_def redo_begin_def redo_settle_def run_all_resolve notify_def Let_def)

lemma five_pushes:
  "undoStack (exec (cfg\<lparr>maxLength := 3\<rparr>) ok
      [Push (a0\<lparr>groupId := None\<rparr>), Push (a1\<lparr>groupId := None\<rparr>), Push (a2\<lparr>groupId := None\<rparr>),
       Push (a3\<lparr>groupId := None\<rparr>), Push (a4\<lparr>groupId := None\<rparr>)] createUndoManager) =
   [a2\<lparr>groupId := None\<rparr>, a3\<lparr>groupId := None\<rparr>, a4\<lparr>groupId := None\<rparr>]"
  by (simp add: push_def notify_def createUndoManager_def Let_def)

lemma awaited_calls_keep_bound:
  "length (undoStack (exec cfg ok xs createUndoManager)) \<le> maxLength cfg
   \<and> undoStack (exec (cfg\<lparr>maxLength := 3\<rparr>) ok
        [Push (a0\<lparr>groupId := None\<rparr>), Push (a1\<lparr>groupId := None\<rparr>), Push (a2\<lparr>groupId := None\<rparr>),
         Push (a3\<lparr>groupId := None\<rparr>), Push (a4\<lparr>groupId := None\<rparr>)] createUndoManager) =
       [a2\<lparr>groupId := None\<rparr>, a3\<lparr>groupId := None\<rparr>, a4\<lparr>groupId := None\<rparr>]
   \<and> undoStack (fst (redo_op cfg (\<lambda>p. True) (m\<lparr>redoStack := rs @ [a]\<rparr>))) =
       (if length (undoStack m) + 1 > maxLength cfg
        then tl (undoStack m @ [a]) else undoStack m @ [a])"
proof (intro conjI)
  show "length (undoStack (exec cfg ok xs createUndoManager)) \<le> maxLength cfg"
    by (rule length_exec) (simp add: createUndoManager_def)
qed (rule five_pushes, rule redo_op_recaps)

lemma length_interleaved_step:
  "length (undoStack (fst st)) \<le> maxLength cfg \<Longrightarrow>
   length (undoStack (fst (interleaved_step cfg (\<lambda>p. True) x st))) \<le> maxLength cfg"
proof (cases st)
  case (Pair m ss)
  assume "length (undoStack (fst st)) \<le> maxLength cfg"
  with Pair show ?thesis
    by (cases x)
       (auto simp: length_push undo_begin_def redo_begin_def undo_settle_def redo_settle_def
          run_all_resolve clear_def notify_def Let_def split: suspended.splits)
qed

lemma overlapping_calls_keep_bound_when_resolved:
  "length (undoStack (fst st)) \<le> maxLength cfg \<Longrightarrow>
   length (undoStack (fst (interleaved cfg (\<lambda>p. True) xs st))) \<le> maxLength cfg"
  by (induction xs arbitrary: st) (simp_all add: length_interleaved_step)

text \<open>
  C7.  The bound on the undo stack is enforced where \<open>push\<close> and a resolved \<open>redo\<close> add an
  entry, and it holds for calls awaited one after the other and for overlapping calls whose
  procedures all resolve (the lemmas above).  The \<open>catch\<close> block of \<open>undo\<close> puts the popped
  entry back without it.  With \<open>maxLength = 1\<close>: an action is pushed, \<open>undo()\<close> is called and
  suspended at the \<open>await\<close> of its procedure, a second action is pushed, and the procedure
  rejects.  The undo stack then holds both actions, one more than \<open>maxLength\<close>.
\<close>

theorem undo_stack_outgrows_bound_after_failed_undo:
  "undoStack (fst (interleaved \<lparr>maxLength = 1, onNavigate = False\<rparr> (\<lambda>p. False)
      [CallPush \<lparr>undo = Prim ''undoA'', redo = Prim ''redoA'', groupId = None,
                 path = None, description = None\<rparr>,
       CallUndo,
       CallPush \<lparr>undo = Prim ''undoB'', redo = Prim ''redoB'', groupId = None,
                 path = None, description = None\<rparr>,
       Settle 0] (createUndoManager, []))) =
     [\<lparr>undo = Prim ''undoB'', redo = Prim ''redoB'', groupId = None,
       path = None, description = None\<rparr>,
      \<lparr>undo = Prim ''undoA'', redo = Prim ''redoA'', groupId = None,
       path = None, description = None\<rparr>]
   \<and> length (undoStack (fst (interleaved \<lparr>maxLength = 1, onNavigate = False\<rparr> (\<lambda>p. False)
      [CallPush \<lparr>undo = Prim ''undoA'', redo = Prim ''redoA'', groupId = None,
                 path = None, description = None\<rparr>,
       CallUndo,
       CallPush \<lparr>undo = Prim ''undoB'', redo = Prim ''redoB'', groupId = None,
                 path = None, description = None\<rparr>,
       Settle 0] (createUndoManager, [])))) = 2
   \<and> maxLength \<lparr>maxLength = 1, onNavigate = False\<rparr> = 1"
  by (simp add: push_def notify_def createUndoManager_def Let_def undo_begin_def undo_settle_def
      navigate_def)

text \<open>
  C6.  Two actions of the group \<open>group-1\<close> are pushed and one undo is run.  The pushes leave one
  merged entry and the undo empties the stack, but the merged procedure calls the undo of the
  action pushed first before the undo of the action pushed second.
\<close>

theorem grouped_undo_runs_in_push_order:
  "undoStack (exec \<lparr>maxLength = 20, onNavigate = False\<rparr> (\<lambda>p. True)
      [Push \<lparr>undo = Prim ''undo1'', redo = Prim ''redo1'', groupId = Some ''group-1'',
             path = None, description = None\<rparr>,
       Push \<lparr>undo = Prim ''undo2'', redo = Prim ''redo2'', groupId = Some ''group-1'',
             path = None, description = None\<rparr>] createUndoManager) =
     [\<lparr>undo = Seq (Prim ''undo1'') (Prim ''undo2''), redo = Seq (Prim ''redo2'') (Prim ''redo1''),
       groupId = Some ''group-1'', path = None, description = None\<rparr>]
   \<and> undoStack (exec \<lparr>maxLength = 20, onNavigate = False\<rparr> (\<lambda>p. True)
      [Push \<lparr>undo = Prim ''undo1'', redo = Prim ''redo1'', groupId = Some ''group-1'',
             path = None, description = None\<rparr>,
       Push \<lparr>undo = Prim ''undo2'', redo = Prim ''redo2'', groupId = Some ''group-1'',
             path = None, description = None\<rparr>,
       Undo] createUndoManager) = []
   \<and> events (exec \<lparr>maxLength = 20, onNavigate = False\<rparr> (\<lambda>p. True)
      [Push \<lparr>undo = Prim ''undo1'', redo = Prim ''redo1'', groupId = Some ''group-1'',
             path = None, description = None\<rparr>,
       Push \<lparr>undo = Prim ''undo2'', redo = Prim ''redo2'', groupId = Some ''group-1'',
             path = None, description = None\<rparr>,
       Undo] createUndoManager) =
     [UndoNotified, UndoNotified, Called ''undo1'', Called ''undo2'', UndoNotified]"
  by (simp add: push_def notify_def createUndoManager_def Let_def merged_def undo_op_def
      undo_begin_def undo_settle_def navigate_def)

section \<open>Objects as property lists\<close>

lemma list_all_obj_set:
  "list_all P ob \<Longrightarrow> P (k, v) \<Longrightarrow> list_all P (obj_set ob k v)"
  by (induction ob k v rule: obj_set.induct) auto

lemma map_of_obj_set_same [simp]: "map_of (obj_set ob k v) k = Some v"
  by (induction ob k v rule: obj_set.induct) auto

lemma map_of_obj_set_other [simp]: "k' \<noteq> k \<Longrightarrow> map_of (obj_set ob k v) k' = map_of ob k'"
  by (induction ob k v rule: obj_set.induct) auto

section \<open>Document subscription: rebase, flush, write errors\<close>




text \<open>
  C2.  \<open>set({name: "X"})\<close> on a subscription that has received no snapshot, then \<open>sync()\<close>:
  \<open>localState\<close> is present and \<open>syncState\<close> is absent, and \<open>sync\<close> returns at once.  Nothing is
  written, whatever the configuration, and the subscription stays unsynced.
\<close>

theorem set_before_first_snapshot_is_never_written:
  "doc_sync cfg (doc_setData example_doc [(''name'', JStr ''X'')] no_options doc_initial) =
     doc_setData example_doc [(''name'', JStr ''X'')] no_options doc_initial
   \<and> localState (doc_setData example_doc [(''name'', JStr ''X'')] no_options doc_initial) =
       Some [(''name'', JStr ''X'')]
   \<and> syncState (doc_setData example_doc [(''name'', JStr ''X'')] no_options doc_initial) = None
   \<and> isSetOperation (doc_setData example_doc [(''name'', JStr ''X'')] no_options doc_initial)
   \<and> effects (doc_sync cfg
        (doc_setData example_doc [(''name'', JStr ''X'')] no_options doc_initial)) = [Notified]"
  by (simp add: doc_defs example_doc_def no_options_def)


lemma doc_sync_dispatch:
  assumes "localState s = Some l" and "syncState s = Some sy"
    and "\<not> isDeepEqual (JObj l) (JObj sy)"
  shows "effects (doc_sync cfg s) =
     effects s
     @ (if undoable_not_false (pendingUndoOptions s) \<and> onPushUndo cfg
        then [PushedUndo (computeDiff (JObj l) sy) (computeDiff (JObj sy) l) (pendingUndoOptions s)]
        else [])
     @ [if isSetOperation s then SetDoc l else UpdateDoc (flattenDiff (computeDiff (JObj sy) l) [])]"
  using assms by (simp add: doc_sync_def Let_def)




lemma col_sync_dispatch:
  assumes "localState s = Some l" and "syncState s = Some sy"
    and "\<not> isDeepEqual (JObj l) (JObj sy)"
  shows "effects (col_sync cfg s) =
     effects s
     @ (if undoable_not_false (pendingUndoOptions s) \<and> onPushUndo cfg
        then [PushedUndo (computeDiff (JObj l) sy) (computeDiff (JObj sy) l) (pendingUndoOptions s)]
        else [])
     @ [BatchCommit (batch_ops sy (computeDiff (JObj sy) l))]"
  using assms by (simp add: col_sync_def Let_def)

lemma doc_flush_after_failure:
  assumes "localState t = Some l" and "syncState t = Some sy"
    and "\<not> isDeepEqual (JObj l) (JObj sy)"
  shows "filter is_write (effects (doc_sync cfg (doc_sync_failed cfg t))) =
     filter is_write (effects t)
     @ [if isSetOperation t then SetDoc l else UpdateDoc (flattenDiff (computeDiff (JObj sy) l) [])]"
proof -
  let ?t = "doc_sync_failed cfg t"
  have t: "localState ?t = Some l" "syncState ?t = Some sy" "isSetOperation ?t = isSetOperation t"
    "filter is_write (effects ?t) = filter is_write (effects t)"
    using assms by (simp_all add: doc_sync_failed_def Let_def)
  show ?thesis
    using t assms(3) by (simp add: doc_sync_dispatch)
qed

lemma col_flush_after_failure:
  assumes "localState u = Some l" and "syncState u = Some sy"
    and "\<not> isDeepEqual (JObj l) (JObj sy)"
  shows "filter is_write (effects (col_sync cfg (col_sync_failed cfg u))) =
     filter is_write (effects u) @ [BatchCommit (batch_ops sy (computeDiff (JObj sy) l))]"
proof -
  let ?t = "col_sync_failed cfg u"
  have t: "localState ?t = Some l" "syncState ?t = Some sy"
    "filter is_write (effects ?t) = filter is_write (effects u)"
    using assms by (simp_all add: col_sync_failed_def Let_def)
  show ?thesis
    using t assms(3) by (simp add: col_sync_dispatch)
qed

lemma doc_retry_after_failure:
  assumes "localState s = Some l" and "syncState s = Some sy"
    and "\<not> isDeepEqual (JObj l) (JObj sy)" and "\<not> isSetOperation s"
  shows "filter is_write (effects (doc_sync cfg (doc_sync_failed cfg (doc_sync cfg s)))) =
     filter is_write (effects s)
     @ [UpdateDoc (flattenDiff (computeDiff (JObj sy) l) []),
        UpdateDoc (flattenDiff (computeDiff (JObj sy) l) [])]"
proof -
  let ?t = "doc_sync cfg s"
  have t: "localState ?t = Some l" "syncState ?t = Some sy" "\<not> isSetOperation ?t"
    using assms by (simp_all add: doc_sync_def Let_def)
  have "filter is_write (effects ?t) =
      filter is_write (effects s) @ [UpdateDoc (flattenDiff (computeDiff (JObj sy) l) [])]"
    using assms by (simp add: doc_sync_dispatch)
  then show ?thesis
    using t assms(3) by (simp add: doc_flush_after_failure)
qed

lemma col_retry_after_failure:
  assumes "localState s = Some l" and "syncState s = Some sy"
    and "\<not> isDeepEqual (JObj l) (JObj sy)"
  shows "filter is_write (effects (col_sync cfg (col_sync_failed cfg (col_sync cfg s)))) =
     filter is_write (effects s)
     @ [BatchCommit (batch_ops sy (computeDiff (JObj sy) l)),
        BatchCommit (batch_ops sy (computeDiff (JObj sy) l))]"
proof -
  let ?t = "col_sync cfg s"
  have t: "localState ?t = Some l" "syncState ?t = Some sy"
    using assms by (simp_all add: col_sync_def Let_def)
  have "filter is_write (effects ?t) =
      filter is_write (effects s) @ [BatchCommit (batch_ops sy (computeDiff (JObj sy) l))]"
    using assms by (simp add: col_sync_dispatch)
  then show ?thesis
    using t assms(3) by (simp add: col_flush_after_failure)
qed

text \<open>
  C5.  The \<open>catch\<close> block of \<open>sync\<close>, for a document and for a collection, in whatever state
  \<open>t\<close> or \<open>u\<close> the failure finds the subscription: \<open>waitingForUpdate\<close> and \<open>inflightLocalState\<close>
  are cleared, \<open>localState\<close> and \<open>syncState\<close> are left as they are found, the one effect is the
  report of the error with operation \<open>write\<close>, and no timer is started.  If a \<open>localState\<close>
  that differs from \<open>syncState\<close> is found, the next flush writes \<open>computeDiff syncState
  localState\<close> of that state.  When the failure comes straight after the dispatch (no snapshot
  and no edit in between), the edit is still there, and for a flush of an \<open>update\<close> or of a
  collection the next flush repeats the write that failed.
\<close>

theorem write_error_clears_marker_only:
  "waitingForUpdate (doc_sync_failed cfg t) = False
   \<and> inflightLocalState (doc_sync_failed cfg t) = None
   \<and> localState (doc_sync_failed cfg t) = localState t
   \<and> syncState (doc_sync_failed cfg t) = syncState t
   \<and> effects (doc_sync_failed cfg t) =
       effects t @ [ReportedError Document (collectionPath cfg @ ''/'' @ documentId cfg) Write]
   \<and> autosaveTimeout (doc_sync_failed cfg t) = autosaveTimeout t
   \<and> retryTimeout (doc_sync_failed cfg t) = retryTimeout t
   \<and> waitingForUpdate (col_sync_failed ccfg u) = False
   \<and> inflightLocalState (col_sync_failed ccfg u) = None
   \<and> localState (col_sync_failed ccfg u) = localState u
   \<and> syncState (col_sync_failed ccfg u) = syncState u
   \<and> effects (col_sync_failed ccfg u) =
       effects u @ [ReportedError Collection (collectionPath ccfg) Write]
   \<and> autosaveTimeout (col_sync_failed ccfg u) = autosaveTimeout u
   \<and> (localState t = Some tloc \<and> syncState t = Some tsyn \<and> \<not> isDeepEqual (JObj tloc) (JObj tsyn)
      \<longrightarrow> filter is_write (effects (doc_sync cfg (doc_sync_failed cfg t))) =
            filter is_write (effects t)
            @ [if isSetOperation t then SetDoc tloc
               else UpdateDoc (flattenDiff (computeDiff (JObj tsyn) tloc) [])])
   \<and> (localState u = Some uloc \<and> syncState u = Some usyn \<and> \<not> isDeepEqual (JObj uloc) (JObj usyn)
      \<longrightarrow> filter is_write (effects (col_sync ccfg (col_sync_failed ccfg u))) =
            filter is_write (effects u)
            @ [BatchCommit (batch_ops usyn (computeDiff (JObj usyn) uloc))])
   \<and> (localState s = Some l \<and> syncState s = Some sy \<and> \<not> isDeepEqual (JObj l) (JObj sy)
      \<longrightarrow> localState (doc_sync_failed cfg (doc_sync cfg s)) = Some l
          \<and> syncState (doc_sync_failed cfg (doc_sync cfg s)) = Some sy)
   \<and> (localState s = Some l \<and> syncState s = Some sy \<and> \<not> isDeepEqual (JObj l) (JObj sy)
        \<and> \<not> isSetOperation s
      \<longrightarrow> filter is_write (effects (doc_sync cfg (doc_sync_failed cfg (doc_sync cfg s)))) =
            filter is_write (effects s)
            @ [UpdateDoc (flattenDiff (computeDiff (JObj sy) l) []),
               UpdateDoc (flattenDiff (computeDiff (JObj sy) l) [])])
   \<and> (localState c = Some cl \<and> syncState c = Some csy \<and> \<not> isDeepEqual (JObj cl) (JObj csy)
      \<longrightarrow> localState (col_sync_failed ccfg (col_sync ccfg c)) = Some cl
          \<and> syncState (col_sync_failed ccfg (col_sync ccfg c)) = Some csy
          \<and> filter is_write (effects (col_sync ccfg (col_sync_failed ccfg (col_sync ccfg c)))) =
              filter is_write (effects c)
              @ [BatchCommit (batch_ops csy (computeDiff (JObj csy) cl)),
                 BatchCommit (batch_ops csy (computeDiff (JObj csy) cl))])"
proof (intro conjI impI)
  assume "localState t = Some tloc \<and> syncState t = Some tsyn \<and> \<not> isDeepEqual (JObj tloc) (JObj tsyn)"
  then show "filter is_write (effects (doc_sync cfg (doc_sync_failed cfg t))) =
            filter is_write (effects t)
            @ [if isSetOperation t then SetDoc tloc
               else UpdateDoc (flattenDiff (computeDiff (JObj tsyn) tloc) [])]"
    by (simp add: doc_flush_after_failure)
next
  assume "localState u = Some uloc \<and> syncState u = Some usyn \<and> \<not> isDeepEqual (JObj uloc) (JObj usyn)"
  then show "filter is_write (effects (col_sync ccfg (col_sync_failed ccfg u))) =
            filter is_write (effects u)
            @ [BatchCommit (batch_ops usyn (computeDiff (JObj usyn) uloc))]"
    by (simp add: col_flush_after_failure)
next
  assume a: "localState s = Some l \<and> syncState s = Some sy \<and> \<not> isDeepEqual (JObj l) (JObj sy)"
  then show "localState (doc_sync_failed cfg (doc_sync cfg s)) = Some l"
    by (simp add: doc_sync_def doc_sync_failed_def Let_def)
  from a show "syncState (doc_sync_failed cfg (doc_sync cfg s)) = Some sy"
    by (simp add: doc_sync_def doc_sync_failed_def Let_def)
next
  assume "localState s = Some l \<and> syncState s = Some sy \<and> \<not> isDeepEqual (JObj l) (JObj sy)
        \<and> \<not> isSetOperation s"
  then show "filter is_write (effects (doc_sync cfg (doc_sync_failed cfg (doc_sync cfg s)))) =
            filter is_write (effects s)
            @ [UpdateDoc (flattenDiff (computeDiff (JObj sy) l) []),
               UpdateDoc (flattenDiff (computeDiff (JObj sy) l) [])]"
    by (simp add: doc_retry_after_failure)
next
  assume a: "localState c = Some cl \<and> syncState c = Some csy \<and> \<not> isDeepEqual (JObj cl) (JObj csy)"
  then show "localState (col_sync_failed ccfg (col_sync ccfg c)) = Some cl"
    by (simp add: col_sync_def col_sync_failed_def Let_def)
  from a show "syncState (col_sync_failed ccfg (col_sync ccfg c)) = Some csy"
    by (simp add: col_sync_def col_sync_failed_def Let_def)
  from a show "filter is_write (effects (col_sync ccfg (col_sync_failed ccfg (col_sync ccfg c)))) =
              filter is_write (effects c)
              @ [BatchCommit (batch_ops csy (computeDiff (JObj csy) cl)),
                 BatchCommit (batch_ops csy (computeDiff (JObj csy) cl))]"
    by (simp add: col_retry_after_failure)
qed (simp_all add: doc_sync_failed_def col_sync_failed_def Let_def)

theorem write_error_clears_marker_only_witness:
  "localState
     (doc_sync_failed example_doc
        (doc_sync example_doc
           (doc_updateState example_doc (0, 0) [(''name'', JStr ''Bar'')] no_options
              (doc_handleSnapshot (0, 0) [(''name'', JStr ''Foo'')] doc_initial)))) =
     Some [(''name'', JStr ''Bar'')]
   \<and> filter is_write
       (effects
          (doc_sync example_doc
             (doc_sync_failed example_doc
                (doc_sync example_doc
                   (doc_updateState example_doc (0, 0) [(''name'', JStr ''Bar'')] no_options
                      (doc_handleSnapshot (0, 0) [(''name'', JStr ''Foo'')] doc_initial)))))) =
       [UpdateDoc [(''name'', JStr ''Bar'')], UpdateDoc [(''name'', JStr ''Bar'')]]
   \<and> filter is_write
       (effects
          (col_sync example_col
             (col_sync_failed example_col
                (col_sync example_col
                   (col_addDocument example_col ''s1'' [(''name'', JStr ''Hall'')] no_options
                      (col_handleSnapshot (0, 0) [] (col_initial False))))))) =
       [BatchCommit [BatchSet ''s1'' (JObj [(''name'', JStr ''Hall''), (''id'', JStr ''s1'')])],
        BatchCommit [BatchSet ''s1'' (JObj [(''name'', JStr ''Hall''), (''id'', JStr ''s1'')])]]"
  using
    write_error_clears_marker_only [of example_doc
      "doc_sync example_doc
         (doc_updateState example_doc (0, 0) [(''name'', JStr ''Bar'')] no_options
            (doc_handleSnapshot (0, 0) [(''name'', JStr ''Foo'')] doc_initial))"
      example_col
      "col_sync example_col
         (col_addDocument example_col ''s1'' [(''name'', JStr ''Hall'')] no_options
            (col_handleSnapshot (0, 0) [] (col_initial False)))"
      "[(''name'', JStr ''Bar'')]" "[(''name'', JStr ''Foo'')]"
      "[(''s1'', JObj [(''name'', JStr ''Hall''), (''id'', JStr ''s1'')])]" "[]"
      "doc_updateState example_doc (0, 0) [(''name'', JStr ''Bar'')] no_options
         (doc_handleSnapshot (0, 0) [(''name'', JStr ''Foo'')] doc_initial)"
      "[(''name'', JStr ''Bar'')]" "[(''name'', JStr ''Foo'')]"
      "col_addDocument example_col ''s1'' [(''name'', JStr ''Hall'')] no_options
         (col_handleSnapshot (0, 0) [] (col_initial False))"
      "[(''s1'', JObj [(''name'', JStr ''Hall''), (''id'', JStr ''s1'')])]" "[]"]
  by (simp add: doc_defs eval_defs eval_simps Let_def example_doc_def example_col_def
      no_options_def col_sync_def col_sync_failed_def col_addDocument_def col_handleSnapshot_def
      col_initial_def col_getMergedData_def with_id_def)

text \<open>
  A snapshot handled while the write is in flight.  The document is \<open>{name: "Foo"}\<close>, the edit
  \<open>update({name: "Bar"})\<close> is flushed, a snapshot that still says \<open>{name: "Foo"}\<close> is handled
  before the write settles, and the write fails.  The snapshot has cleared \<open>localState\<close> (it
  equals the copy taken at dispatch), the \<open>catch\<close> block does not bring it back, and a further
  flush returns at its first line: the edit is gone and the write that failed is the only one.
\<close>

theorem write_error_after_snapshot_loses_edit:
  "localState
     (doc_sync example_doc
        (doc_updateState example_doc (0, 0) [(''name'', JStr ''Bar'')] no_options
           (doc_handleSnapshot (0, 0) [(''name'', JStr ''Foo'')] doc_initial))) =
     Some [(''name'', JStr ''Bar'')]
   \<and> localState
       (doc_sync_failed example_doc
          (doc_handleSnapshot (0, 0) [(''name'', JStr ''Foo'')]
             (doc_sync example_doc
                (doc_updateState example_doc (0, 0) [(''name'', JStr ''Bar'')] no_options
                   (doc_handleSnapshot (0, 0) [(''name'', JStr ''Foo'')] doc_initial))))) = None
   \<and> syncState
       (doc_sync_failed example_doc
          (doc_handleSnapshot (0, 0) [(''name'', JStr ''Foo'')]
             (doc_sync example_doc
                (doc_updateState example_doc (0, 0) [(''name'', JStr ''Bar'')] no_options
                   (doc_handleSnapshot (0, 0) [(''name'', JStr ''Foo'')] doc_initial))))) =
       Some [(''name'', JStr ''Foo'')]
   \<and> filter is_write
       (effects
          (doc_sync example_doc
             (doc_sync_failed example_doc
                (doc_handleSnapshot (0, 0) [(''name'', JStr ''Foo'')]
                   (doc_sync example_doc
                      (doc_updateState example_doc (0, 0) [(''name'', JStr ''Bar'')] no_options
                         (doc_handleSnapshot (0, 0) [(''name'', JStr ''Foo'')] doc_initial))))))) =
       [UpdateDoc [(''name'', JStr ''Bar'')]]"
  by (simp add: doc_defs eval_defs eval_simps Let_def example_doc_def no_options_def)

section \<open>Collection subscription: id stamping\<close>

lemma deepClone_no_sentinel: "deepClone v \<noteq> JDeleteField \<and> deepClone v \<noteq> JServerTimestamp"
  by (cases v) simp_all

lemma deepClone_obj_eq: "deepClone_obj ob = map (\<lambda>(k, v). (k, deepClone v)) ob"
  by (simp add: deepClone_obj_def)

lemma no_sentinel_entry_deepClone_obj: "no_sentinel_entry (deepClone_obj ob)"
  by (induction ob) (auto simp: deepClone_obj_eq no_sentinel_entry_def deepClone_no_sentinel)

lemma no_sentinel_entry_set:
  "no_sentinel_entry ob \<Longrightarrow> v \<noteq> JDeleteField \<Longrightarrow> v \<noteq> JServerTimestamp \<Longrightarrow>
   no_sentinel_entry (obj_set ob k v)"
  unfolding no_sentinel_entry_def by (rule list_all_obj_set) simp_all

lemma no_sentinel_entry_delete: "no_sentinel_entry ob \<Longrightarrow> no_sentinel_entry (obj_delete ob k)"
  by (simp add: no_sentinel_entry_def obj_delete_def list_all_iff)

lemma no_sentinel_entry_apply:
  "no_sentinel_entry target \<Longrightarrow> no_sentinel_entry (applyDiffMutable now target diff)"
proof (induction now target diff rule: applyDiffMutable.induct)
  case (1 now target)
  then show ?case by simp
next
  case (2 now target key v rest)
  have "no_sentinel_entry
     (case v of
        JDeleteField \<Rightarrow> obj_delete target key
      | JServerTimestamp \<Rightarrow> obj_set target key (JTimestamp (fst now) (snd now))
      | JObj nested \<Rightarrow>
          (let target1 =
                 (if \<not> isPlainObject (obj_get target key)
                  then obj_set target key (JObj []) else target)
           in obj_set target1 key
                (JObj (applyDiffMutable now (own_entries (obj_get target1 key)) nested)))
      | _ \<Rightarrow> obj_set target key v)"
    using "2.prems"
    by (cases v) (simp_all add: no_sentinel_entry_set no_sentinel_entry_delete Let_def)
  then show ?case
    using "2.IH"(2) by simp
qed

lemma map_of_deepClone:
  "map_of (map (\<lambda>(k, v). (k, deepClone v)) ob) key = map_option deepClone (map_of ob key)"
  by (induction ob) auto

lemma entries_ok_deepClone_obj: "entries_ok ob \<Longrightarrow> entries_ok (deepClone_obj ob)"
proof -
  have "get_prop (deepClone v) ''id'' = JStr k"
    if "isPlainObject (deepClone v)" "v \<noteq> JDeleteField" "v \<noteq> JServerTimestamp"
      "isPlainObject v \<longrightarrow> get_prop v ''id'' = JStr k" for v k
    using that by (cases v) (auto simp: get_prop_def map_of_deepClone split: option.splits)
  then show "entries_ok ob \<Longrightarrow> entries_ok (deepClone_obj ob)"
    by (induction ob) (auto simp: entries_ok_def deepClone_obj_eq deepClone_no_sentinel)
qed

lemma entries_ok_stamp_ids: "no_sentinel_entry ob \<Longrightarrow> entries_ok (stamp_ids ob)"
  by (induction ob)
    (auto simp: entries_ok_def no_sentinel_entry_def stamp_ids_def get_prop_def split: jv.splits)

lemma entries_ok_with_id:
  "entries_ok ob \<Longrightarrow> entries_ok (obj_set ob docId (with_id data docId))"
  unfolding entries_ok_def
  by (rule list_all_obj_set) (simp_all add: with_id_def get_prop_def)

lemma entries_ok_snapshot_state:
  "entries_ok acc \<Longrightarrow> entries_ok (snapshot_state docs acc)"
  by (induction docs acc rule: snapshot_state.induct) (simp_all add: entries_ok_with_id)

lemma entries_ok_delete: "entries_ok ob \<Longrightarrow> entries_ok (obj_delete ob k)"
  by (simp add: entries_ok_def obj_delete_def list_all_iff)

lemma merged_ok: "state_ok s \<Longrightarrow> entries_ok (col_getMergedData s)"
  by (auto simp: state_ok_def col_getMergedData_def entries_ok_def split: option.splits)

lemma stamped_result_ok:
  "entries_ok (stamp_ids (applyDiffMutable now (deepClone_obj ob) diff))"
  by (simp add: entries_ok_stamp_ids no_sentinel_entry_apply no_sentinel_entry_deepClone_obj)

lemma state_ok_step: "state_ok s \<Longrightarrow> state_ok (col_step cfg c s)"
proof (cases c)
  case (ColUpdate now diff opts)
  assume "state_ok s"
  then show ?thesis
    unfolding ColUpdate
    by (auto simp: state_ok_def col_updateState_def sub_notify_def scheduleAutosave_def Let_def
        stamped_result_ok)
next
  case (ColAdd docId data opts)
  assume ok: "state_ok s"
  have "entries_ok (obj_set (deepClone_obj (col_getMergedData s)) docId (with_id data docId))"
    by (simp add: entries_ok_with_id entries_ok_deepClone_obj merged_ok ok)
  with ok show ?thesis
    unfolding ColAdd
    by (auto simp: state_ok_def col_addDocument_def sub_notify_def scheduleAutosave_def Let_def)
next
  case (ColRemove docId opts)
  assume ok: "state_ok s"
  have "entries_ok (obj_delete (deepClone_obj (col_getMergedData s)) docId)"
    by (simp add: entries_ok_delete entries_ok_deepClone_obj merged_ok ok)
  with ok show ?thesis
    unfolding ColRemove
    by (auto simp: state_ok_def col_removeDocument_def sub_notify_def scheduleAutosave_def Let_def)
next
  case ColSync
  assume "state_ok s"
  then show ?thesis
    unfolding ColSync
    by (auto simp: state_ok_def col_sync_def sub_notify_def Let_def split: option.splits)
next
  case ColSyncFailed
  assume "state_ok s"
  then show ?thesis
    unfolding ColSyncFailed by (auto simp: state_ok_def col_sync_failed_def Let_def)
next
  case (ColSnapshot now docs)
  assume ok: "state_ok s"
  have sy: "entries_ok (snapshot_state docs [])"
    by (rule entries_ok_snapshot_state) (simp add: entries_ok_def)
  with ok show ?thesis
    unfolding ColSnapshot
    by (auto simp: state_ok_def col_handleSnapshot_def sub_notify_def Let_def stamped_result_ok
        split: option.splits)
qed

lemma state_ok_run: "state_ok s \<Longrightarrow> state_ok (col_run cfg cs s)"
  by (induction cs arbitrary: s) (simp_all add: state_ok_step)

lemma entries_ok_stamped: "entries_ok ob \<Longrightarrow> object_ids_stamped ob"
  by (simp add: entries_ok_def object_ids_stamped_def list_all_iff split_beta)

text \<open>
  C10, as amended.  After any sequence of \<open>update\<close>, \<open>add\<close>, \<open>remove\<close>, flushes, failed
  writes and snapshots (with or without a rebase) on a fresh collection subscription, every
  entry of \<open>localState\<close> and of \<open>syncState\<close> that is a plain object has its key as \<open>id\<close>.
\<close>

theorem object_entries_carry_their_key:
  "state_ids_stamped (col_run cfg calls (col_initial lazy))"
proof -
  have "state_ok (col_initial lazy)"
    by (simp add: state_ok_def col_initial_def)
  then have "state_ok (col_run cfg calls (col_initial lazy))"
    by (rule state_ok_run)
  then show ?thesis
    by (auto simp: state_ok_def state_ids_stamped_def entries_ok_stamped split: option.splits)
qed

theorem object_entries_carry_their_key_witness:
  "localState
     (col_run example_col
        [ColSnapshot (0, 0) [(''s1'', [(''name'', JStr ''Hall'')])],
         ColUpdate (0, 0) [(''s1'', JObj [(''name'', JStr ''Room''), (''id'', JStr ''x'')])] no_options]
        (col_initial False)) =
     Some [(''s1'', JObj [(''name'', JStr ''Room''), (''id'', JStr ''s1'')])]
   \<and> isPlainObject (JObj [(''name'', JStr ''Room''), (''id'', JStr ''s1'')])
   \<and> get_prop (JObj [(''name'', JStr ''Room''), (''id'', JStr ''s1'')]) ''id'' = JStr ''s1''"
  using object_entries_carry_their_key [of example_col
      "[ColSnapshot (0, 0) [(''s1'', [(''name'', JStr ''Hall'')])],
        ColUpdate (0, 0) [(''s1'', JObj [(''name'', JStr ''Room''), (''id'', JStr ''x'')])] no_options]"
      False]
  by (simp add: state_ids_stamped_def object_ids_stamped_def example_col_def no_options_def
      col_updateState_def col_handleSnapshot_def col_initial_def col_getMergedData_def
      with_id_def stamp_ids_def sub_notify_def scheduleAutosave_def deepClone_obj_def
      eval_defs Let_def)

text \<open>
  C10, as stated: \<open>update({a: null})\<close> on a fresh subscription leaves the key \<open>a\<close> in
  \<open>localState\<close> with the value \<open>null\<close>, which has no \<open>id\<close>.
\<close>

theorem null_entry_is_not_stamped:
  "localState (col_updateState example_col (0, 0) [(''a'', JNull)] no_options (col_initial False)) =
     Some [(''a'', JNull)]
   \<and> \<not> ids_stamped [(''a'', JNull)]
   \<and> get_prop JNull ''id'' \<noteq> JStr ''a''"
  by (simp add: ids_stamped_def example_col_def no_options_def col_updateState_def
      col_initial_def col_getMergedData_def stamp_ids_def sub_notify_def scheduleAutosave_def
      deepClone_obj_def eval_defs Let_def)

section \<open>The diff algebra on document values\<close>


lemma all_data_iff: "all_data xs = (\<forall>x \<in> set xs. is_data x)"
  by (induction xs) auto























section \<open>flattenDiff and unflattenDiff\<close>

lemma split_dot_nonempty [simp]: "split_dot s \<noteq> []"
  by (induction s) (auto split: list.splits)

lemma split_dot_plain: "CHR ''.'' \<notin> set k \<Longrightarrow> split_dot k = [k]"
  by (induction k) auto

lemma split_dot_append: "CHR ''.'' \<notin> set k \<Longrightarrow> split_dot (k @ CHR ''.'' # s) = k # split_dot s"
  by (induction k) auto

lemma split_join:
  "ps \<noteq> [] \<Longrightarrow> \<forall>k \<in> set ps. CHR ''.'' \<notin> set k \<Longrightarrow> split_dot (join_dot ps) = ps"
  by (induction ps rule: join_dot.induct) (auto simp: split_dot_plain split_dot_append)

lemma join_dot_snoc:
  "join_dot (pre @ [k]) = (if pre = [] then k else join_dot pre @ ''.'' @ k)"
  by (induction pre rule: join_dot.induct) auto

lemma obj_set_new: "k \<notin> fst ` set ob \<Longrightarrow> obj_set ob k v = ob @ [(k, v)]"
  by (induction ob k v rule: obj_set.induct) auto

lemma object_assign_append:
  "distinct (map fst xs) \<Longrightarrow> fst ` set xs \<inter> fst ` set res = {} \<Longrightarrow>
   object_assign res xs = res @ xs"
proof (induction xs arbitrary: res)
  case Nil
  then show ?case by simp
next
  case (Cons x xs)
  obtain k v where x: "x = (k, v)" by (cases x)
  have "obj_set res k v = res @ [(k, v)]"
    using Cons.prems(2) by (intro obj_set_new) (auto simp: x)
  moreover have "object_assign (res @ [(k, v)]) xs = (res @ [(k, v)]) @ xs"
    using Cons.prems by (intro Cons.IH) (auto simp: x)
  ultimately show ?case by (simp add: x)
qed

lemma flatten_loop_Cons:
  "flatten_loop ((k, v) # rest) prefix result =
     flatten_loop rest prefix
       (case v of
          JObj n \<Rightarrow>
            object_assign result
              (flatten_loop n (if prefix \<noteq> [] then prefix @ ''.'' @ k else k) [])
        | _ \<Rightarrow> obj_set result (if prefix \<noteq> [] then prefix @ ''.'' @ k else k) v)"
  by (cases v) (simp_all add: flatten_loop.simps flattenDiff.simps Let_def)

lemma leaves_Cons_obj [simp]:
  "leaves ((k, JObj n) # rest) = map (\<lambda>(ps, w). (k # ps, w)) (leaves n) @ leaves rest"
  by simp

lemma leaves_Cons_leaf [simp]:
  "\<not> isPlainObject v \<Longrightarrow> leaves ((k, v) # rest) = ([k], v) # leaves rest"
  by (cases v) simp_all

declare leaves.simps(2) [simp del]

lemma leaves_path:
  "(ps, w) \<in> set (leaves es) \<Longrightarrow> fields_flattenable es \<Longrightarrow>
   ps \<noteq> [] \<and> hd ps \<in> fst ` set es \<and> (\<forall>k \<in> set ps. CHR ''.'' \<notin> set k)"
proof (induction es arbitrary: ps w rule: leaves.induct)
  case 1
  then show ?case by simp
next
  case (2 k v rest)
  show ?case
  proof (cases v)
    case (JObj n)
    from "2.prems" consider
      (here) qs where "ps = k # qs" "(qs, w) \<in> set (leaves n)"
      | (there) "(ps, w) \<in> set (leaves rest)"
      by (auto simp: JObj)
    then show ?thesis
    proof cases
      case here
      then show ?thesis
        using "2.IH"(1) [OF JObj, of qs w] "2.prems"(2) by (auto simp: JObj)
    next
      case there
      then show ?thesis
        using "2.IH"(2) [of ps w] "2.prems"(2) by auto
    qed
  qed (use 2 in auto)
qed

lemma fst_consed: "fst \<circ> (\<lambda>(ps, w). (k # ps, w)) = (#) k \<circ> fst"
  by auto

lemma distinct_leaves:
  "distinct (map fst es) \<Longrightarrow> fields_flattenable es \<Longrightarrow> distinct (map fst (leaves es))"
proof (induction es rule: leaves.induct)
  case 1
  then show ?case by simp
next
  case (2 k v rest)
  have rest: "distinct (map fst (leaves rest))"
    using 2 by simp
  have other: "ps \<noteq> [] \<and> hd ps \<noteq> k" if "ps \<in> set (map fst (leaves rest))" for ps
  proof -
    from that obtain w where "(ps, w) \<in> set (leaves rest)" by auto
    then show ?thesis
      using leaves_path [of ps w rest] "2.prems" by (auto simp: rev_image_eqI)
  qed
  show ?case
  proof (cases "isPlainObject v")
    case True
    then obtain n where v: "v = JObj n" by (cases v) auto
    have n: "distinct (map fst (leaves n))"
      using "2.IH"(1) [OF v] "2.prems"(2) by (simp add: v)
    have "distinct (map ((#) k) (map fst (leaves n)))"
      using n by (subst distinct_map) (simp add: inj_on_def)
    moreover have "set (map ((#) k) (map fst (leaves n))) \<inter> set (map fst (leaves rest)) = {}"
      using other by fastforce
    ultimately show ?thesis
      using rest by (simp add: v fst_consed del: set_map)
  next
    case False
    have "[k] \<notin> set (map fst (leaves rest))"
      using other [of "[k]"] by auto
    then show ?thesis
      using rest False by (simp del: set_map)
  qed
qed

lemma flat_paths_Nil [simp]: "flat_paths pre [] = []"
  by (simp add: flat_paths_def)

lemma flat_paths_Cons_leaf:
  "\<not> isPlainObject v \<Longrightarrow>
   flat_paths pre ((k, v) # rest) = (join_dot (pre @ [k]), v) # flat_paths pre rest"
  by (simp add: flat_paths_def)

lemma flat_paths_Cons_obj:
  "flat_paths pre ((k, JObj n) # rest) = flat_paths (pre @ [k]) n @ flat_paths pre rest"
  by (simp add: flat_paths_def split_beta)


lemma map_fst_flat_paths:
  "map fst (flat_paths pre es) = map (\<lambda>ps. join_dot (pre @ ps)) (map fst (leaves es))"
  by (simp add: flat_paths_def split_beta comp_def)


lemma distinct_flat_paths:
  assumes "distinct (map fst es)" and "fields_flattenable es"
    and "\<forall>k \<in> set pre. CHR ''.'' \<notin> set k"
  shows "distinct (map fst (flat_paths pre es))"
proof -
  have "inj_on (\<lambda>ps. join_dot (pre @ ps)) (set (map fst (leaves es)))"
  proof (rule inj_onI)
    fix ps qs
    assume ps: "ps \<in> set (map fst (leaves es))" and qs: "qs \<in> set (map fst (leaves es))"
      and j: "join_dot (pre @ ps) = join_dot (pre @ qs)"
    from ps obtain w where "(ps, w) \<in> set (leaves es)" by auto
    then have p: "ps \<noteq> []" "\<forall>k \<in> set ps. CHR ''.'' \<notin> set k"
      using leaves_path [of ps w es] assms(2) by blast+
    from qs obtain w' where "(qs, w') \<in> set (leaves es)" by auto
    then have q: "qs \<noteq> []" "\<forall>k \<in> set qs. CHR ''.'' \<notin> set k"
      using leaves_path [of qs w' es] assms(2) by blast+
    have "pre @ ps \<noteq> []" "\<forall>k \<in> set (pre @ ps). CHR ''.'' \<notin> set k"
      using p assms(3) by auto
    then have a: "split_dot (join_dot (pre @ ps)) = pre @ ps"
      by (rule split_join)
    have "pre @ qs \<noteq> []" "\<forall>k \<in> set (pre @ qs). CHR ''.'' \<notin> set k"
      using q assms(3) by auto
    then have b: "split_dot (join_dot (pre @ qs)) = pre @ qs"
      by (rule split_join)
    have "pre @ ps = pre @ qs"
      using a b j by metis
    then show "ps = qs"
      by simp
  qed
  then have "distinct (map (\<lambda>ps. join_dot (pre @ ps)) (map fst (leaves es)))"
    using distinct_leaves [OF assms(1,2)] by (subst distinct_map) simp
  then show ?thesis
    by (simp only: map_fst_flat_paths)
qed

lemma flatten_loop_eq:
  assumes "distinct (map fst es)" and "fields_flattenable es"
    and "\<forall>k \<in> set pre. CHR ''.'' \<notin> set k"
    and "pre = [] \<or> join_dot pre \<noteq> []"
    and "pre = [] \<longrightarrow> (\<forall>(k, v) \<in> set es. isPlainObject v \<longrightarrow> k \<noteq> [])"
    and "fst ` set res \<inter> fst ` set (flat_paths pre es) = {}"
  shows "flatten_loop es (join_dot pre) res = res @ flat_paths pre es"
  using assms
proof (induction es arbitrary: pre res rule: leaves.induct)
  case 1
  then show ?case by simp
next
  case (2 k v rest)
  let ?p = "join_dot pre"
  let ?pth = "if ?p \<noteq> [] then ?p @ ''.'' @ k else k"
  have pth: "?pth = join_dot (pre @ [k])"
    using "2.prems"(4) by (auto simp: join_dot_snoc)
  have dist: "distinct (map fst (flat_paths pre ((k, v) # rest)))"
    using "2.prems"(1,2,3) by (rule distinct_flat_paths)
  have rest_ok: "distinct (map fst rest)" "fields_flattenable rest"
    "pre = [] \<longrightarrow> (\<forall>(k, v) \<in> set rest. isPlainObject v \<longrightarrow> k \<noteq> [])"
    using "2.prems" by auto
  show ?case
  proof (cases "isPlainObject v")
    case False
    have fp: "flat_paths pre ((k, v) # rest) = (join_dot (pre @ [k]), v) # flat_paths pre rest"
      using False by (rule flat_paths_Cons_leaf)
    have new: "join_dot (pre @ [k]) \<notin> fst ` set res"
      using "2.prems"(6) by (auto simp: fp)
    have step: "flatten_loop ((k, v) # rest) ?p res =
        flatten_loop rest ?p (res @ [(join_dot (pre @ [k]), v)])"
      using False new by (cases v) (simp_all add: flatten_loop_Cons pth obj_set_new)
    have "fst ` set (res @ [(join_dot (pre @ [k]), v)]) \<inter> fst ` set (flat_paths pre rest) = {}"
      using "2.prems"(6) dist by (auto simp: fp)
    then have "flatten_loop rest ?p (res @ [(join_dot (pre @ [k]), v)]) =
        (res @ [(join_dot (pre @ [k]), v)]) @ flat_paths pre rest"
      using rest_ok "2.prems"(3,4) by (intro "2.IH"(2)) auto
    then show ?thesis
      by (simp add: step fp)
  next
    case True
    then obtain n where v: "v = JObj n" by (cases v) auto
    have fp: "flat_paths pre ((k, v) # rest) = flat_paths (pre @ [k]) n @ flat_paths pre rest"
      by (simp add: v flat_paths_Cons_obj)
    have n_ok: "distinct (map fst n)" "fields_flattenable n" "CHR ''.'' \<notin> set k"
      using "2.prems"(2) by (simp_all add: v)
    have ne: "join_dot (pre @ [k]) \<noteq> []"
      using "2.prems"(4,5) by (auto simp: join_dot_snoc v)
    have "flatten_loop n (join_dot (pre @ [k])) [] = [] @ flat_paths (pre @ [k]) n"
      using n_ok "2.prems"(3) ne by (intro "2.IH"(1) [OF v]) auto
    then have inner: "flatten_loop n ?pth [] = flat_paths (pre @ [k]) n"
      by (simp add: pth)
    have d_inner: "distinct (map fst (flat_paths (pre @ [k]) n))"
      using dist by (simp add: fp)
    have "fst ` set (flat_paths (pre @ [k]) n) \<inter> fst ` set res = {}"
      using "2.prems"(6) by (auto simp: fp)
    then have assign: "object_assign res (flat_paths (pre @ [k]) n) = res @ flat_paths (pre @ [k]) n"
      using d_inner by (intro object_assign_append)
    have step: "flatten_loop ((k, v) # rest) ?p res =
        flatten_loop rest ?p (res @ flat_paths (pre @ [k]) n)"
      by (simp add: flatten_loop_Cons v inner assign)
    have "fst ` set (res @ flat_paths (pre @ [k]) n) \<inter> fst ` set (flat_paths pre rest) = {}"
      using "2.prems"(6) dist by (auto simp: fp)
    then have "flatten_loop rest ?p (res @ flat_paths (pre @ [k]) n) =
        (res @ flat_paths (pre @ [k]) n) @ flat_paths pre rest"
      using rest_ok "2.prems"(3,4) by (intro "2.IH"(2)) auto
    then show ?thesis
      by (simp add: step fp)
  qed
qed

lemma unflatten_loop_paths:
  "\<forall>(ps, v) \<in> set ls. ps \<noteq> [] \<and> (\<forall>k \<in> set ps. CHR ''.'' \<notin> set k) \<Longrightarrow>
   unflatten_loop (map (\<lambda>(ps, v). (join_dot ps, v)) ls) u = ins_all ls u"
proof (induction ls arbitrary: u)
  case Nil
  then show ?case by simp
next
  case (Cons l ls)
  obtain ps v where l: "l = (ps, v)" by (cases l)
  have "split_dot (join_dot ps) = ps"
    using Cons.prems by (intro split_join) (auto simp: l)
  then show ?case
    using Cons by (auto simp: l split: sum.splits)
qed

lemma ins_all_append:
  "ins_all (xs @ ys) u = (case ins_all xs u of Inr u' \<Rightarrow> ins_all ys u' | Inl e \<Rightarrow> Inl e)"
  by (induction xs arbitrary: u) (auto split: sum.splits)

lemma set_path_into:
  assumes "map_of u k = Some (JObj c0)" and "ps \<noteq> []"
  shows "set_path u (k # ps) v =
     (case set_path c0 ps v of Inr c \<Rightarrow> Inr (obj_set u k (JObj c)) | Inl e \<Rightarrow> Inl e)"
proof -
  obtain p ps' where ps: "ps = p # ps'"
    using assms(2) by (cases ps) auto
  have "has_property u k" "typeof_property u k = ''object''"
    using assms(1)
    by (auto simp: has_property_def obj_has_def typeof_property_def dest: map_of_SomeD
        intro: rev_image_eqI)
  then show ?thesis
    using assms(1) by (simp add: ps)
qed

lemma map_of_append_fresh: "k \<notin> fst ` set u \<Longrightarrow> ([k \<mapsto> a] ++ map_of u) k = Some a"
  by (simp add: map_add_def map_of_eq_None_iff [THEN iffD2])

lemma set_path_fresh:
  assumes "k \<notin> fst ` set u" and "ps \<noteq> []" and "k \<noteq> ''__proto__''"
  shows "set_path u (k # ps) v = set_path (u @ [(k, JObj [])]) (k # ps) v"
proof -
  obtain p ps' where ps: "ps = p # ps'"
    using assms(2) by (cases ps) auto
  have "map_of u k = None"
    using assms(1) by (simp add: map_of_eq_None_iff)
  then have a: "typeof_property u k \<noteq> ''object''"
    using assms(3) by (simp add: typeof_property_def)
  have a': "obj_set u k (JObj []) = u @ [(k, JObj [])]"
    using assms(1) by (simp add: obj_set_new)
  have b: "has_property (u @ [(k, JObj [])]) k"
    "typeof_property (u @ [(k, JObj [])]) k = ''object''"
    "map_of (u @ [(k, JObj [])]) k = Some (JObj [])"
    using assms(1) by (simp_all add: has_property_def obj_has_def typeof_property_def map_of_append_fresh)
  show ?thesis
    using a b by (simp add: ps a' map_of_append_fresh assms(1))
qed

lemma set_path_leaf: "k \<noteq> ''__proto__'' \<Longrightarrow> set_path u [k] v = Inr (obj_set u k v)"
  by (simp add: assign_def)

lemma obj_set_twice: "obj_set (obj_set u k a) k b = obj_set u k b"
  by (induction u k a rule: obj_set.induct) auto

lemma obj_set_last: "k \<notin> fst ` set u \<Longrightarrow> obj_set (u @ [(k, a)]) k b = u @ [(k, b)]"
  by (induction u) auto

lemma ins_all_under:
  assumes "map_of u k = Some (JObj c0)" and "\<forall>(ps, v) \<in> set ls. ps \<noteq> []"
  shows "ins_all (map (\<lambda>(ps, w). (k # ps, w)) ls) u =
     (case ins_all ls c0 of Inr c \<Rightarrow> Inr (obj_set u k (JObj c)) | Inl e \<Rightarrow> Inl e)"
  using assms
proof (induction ls arbitrary: u c0)
  case Nil
  then have "(k, JObj c0) \<in> set u"
    by (auto dest: map_of_SomeD)
  moreover have "obj_set u k (JObj c0) = u" if "(k, JObj c0) \<in> set u" "map_of u k = Some (JObj c0)"
    using that by (induction u) (auto split: if_splits)
  ultimately show ?case
    using Nil by simp
next
  case (Cons l ls)
  obtain ps v where l: "l = (ps, v)" by (cases l)
  have ps: "ps \<noteq> []"
    using Cons.prems(2) by (auto simp: l)
  show ?case
  proof (cases "set_path c0 ps v")
    case (Inl e)
    then show ?thesis
      using Cons.prems(1) ps by (simp add: l set_path_into)
  next
    case (Inr c1)
    have "map_of (obj_set u k (JObj c1)) k = Some (JObj c1)"
      by simp
    then have "ins_all (map (\<lambda>(ps, w). (k # ps, w)) ls) (obj_set u k (JObj c1)) =
        (case ins_all ls c1 of
           Inr c \<Rightarrow> Inr (obj_set (obj_set u k (JObj c1)) k (JObj c)) | Inl e \<Rightarrow> Inl e)"
      using Cons.prems(2) by (intro Cons.IH) auto
    then show ?thesis
      using Cons.prems(1) ps Inr
      by (simp add: l set_path_into obj_set_twice split: sum.splits)
  qed
qed

lemma leaves_nonempty: "es \<noteq> [] \<Longrightarrow> fields_flattenable es \<Longrightarrow> leaves es \<noteq> []"
proof (induction es rule: leaves.induct)
  case 1
  then show ?case by simp
next
  case (2 k v rest)
  show ?case
  proof (cases "isPlainObject v")
    case True
    then obtain n where v: "v = JObj n" by (cases v) auto
    then have "leaves n \<noteq> []"
      using "2.IH"(1) [OF v] "2.prems"(2) by simp
    then show ?thesis by (simp add: v)
  next
    case False
    then show ?thesis by simp
  qed
qed

lemma ins_all_leaves:
  assumes "distinct (map fst es)" and "fields_flattenable es"
    and "fst ` set es \<inter> fst ` set u = {}"
  shows "ins_all (leaves es) u = Inr (u @ es)"
  using assms
proof (induction es arbitrary: u rule: leaves.induct)
  case 1
  then show ?case by simp
next
  case (2 k v rest)
  have fresh: "k \<notin> fst ` set u"
    using "2.prems"(3) by auto
  have kp: "k \<noteq> ''__proto__''"
    using "2.prems"(2) by simp
  have rest_ok: "distinct (map fst rest)" "fields_flattenable rest"
    using "2.prems" by auto
  have rest_new: "fst ` set rest \<inter> fst ` set (u @ [(k, w)]) = {}" for w
    using "2.prems"(1,3) by auto
  show ?case
  proof (cases "isPlainObject v")
    case False
    have "ins_all (leaves rest) (u @ [(k, v)]) = Inr ((u @ [(k, v)]) @ rest)"
      using rest_ok rest_new by (intro "2.IH"(2))
    then show ?thesis
      using False fresh kp by (simp add: obj_set_new assign_def)
  next
    case True
    then obtain n where v: "v = JObj n" by (cases v) auto
    have n_ok: "n \<noteq> []" "distinct (map fst n)" "fields_flattenable n"
      using "2.prems"(2) by (simp_all add: v)
    have inner: "ins_all (leaves n) [] = Inr ([] @ n)"
      using n_ok by (intro "2.IH"(1) [OF v]) auto
    have paths: "\<forall>(ps, w) \<in> set (leaves n). ps \<noteq> []"
      using leaves_path n_ok(3) by blast
    obtain l ls where ls: "leaves n = l # ls"
      using leaves_nonempty [OF n_ok(1,3)] by (cases "leaves n") auto
    obtain ps w where l: "l = (ps, w)" by (cases l)
    have ps: "ps \<noteq> []"
      using paths by (auto simp: ls l)
    let ?u1 = "u @ [(k, JObj [])]"
    have "ins_all (map (\<lambda>(ps, w). (k # ps, w)) (leaves n)) u =
        ins_all (map (\<lambda>(ps, w). (k # ps, w)) (leaves n)) ?u1"
      using set_path_fresh [OF fresh ps kp] by (simp add: ls l)
    also have "\<dots> = (case ins_all (leaves n) [] of
        Inr c \<Rightarrow> Inr (obj_set ?u1 k (JObj c)) | Inl e \<Rightarrow> Inl e)"
      using fresh paths
      by (intro ins_all_under) (simp_all add: map_of_append_fresh)
    also have "\<dots> = Inr (u @ [(k, JObj n)])"
      using fresh by (simp add: inner obj_set_last)
    finally have under: "ins_all (map (\<lambda>(ps, w). (k # ps, w)) (leaves n)) u = Inr (u @ [(k, JObj n)])" .
    have "ins_all (leaves rest) (u @ [(k, v)]) = Inr ((u @ [(k, v)]) @ rest)"
      using rest_ok rest_new by (intro "2.IH"(2))
    then show ?thesis
      by (simp add: v ins_all_append under)
  qed
qed

text \<open>
  C9, as amended.  For a diff in which, through all nested objects, every key is free of
  \<open>'.'\<close> and is not \<open>__proto__\<close>, and no nested object is empty, and whose top-level empty
  key (if there is one) does not hold an object, \<open>unflattenDiff\<close> returns on \<open>flattenDiff d\<close>
  and gives \<open>d\<close> back, key for key and in the same order.  Arrays, sentinels, timestamps,
  \<open>null\<close> and primitives are leaves.  Keys that name other members of \<open>Object.prototype\<close>
  (\<open>constructor\<close>, \<open>toString\<close>, ...) are covered: \<open>unflattenDiff\<close> finds a function there and
  puts a fresh object in its place.
\<close>

theorem flatten_round_trip:
  "flattenable d \<and> \<not> isPlainObject (obj_get d '''') \<longrightarrow>
     unflattenDiff (flattenDiff d '''') = Inr d"
proof
  assume h: "flattenable d \<and> \<not> isPlainObject (obj_get d '''')"
  then have d: "distinct (map fst d)" and f: "fields_flattenable d"
    by (simp_all add: flattenable_def)
  have top: "\<forall>(k, v) \<in> set d. isPlainObject v \<longrightarrow> k \<noteq> []"
  proof (clarify)
    fix v
    assume "([], v) \<in> set d" "isPlainObject v"
    moreover from this have "obj_get d [] = v"
      using d by (simp add: obj_get_def)
    ultimately show False
      using h by simp
  qed
  have "flatten_loop d (join_dot []) [] = [] @ flat_paths [] d"
    using d f top by (intro flatten_loop_eq) auto
  then have flat: "flattenDiff d [] = map (\<lambda>(ps, v). (join_dot ps, v)) (leaves d)"
    by (simp add: flattenDiff.simps flat_paths_def)
  have paths: "\<forall>(ps, v) \<in> set (leaves d). ps \<noteq> [] \<and> (\<forall>k \<in> set ps. CHR ''.'' \<notin> set k)"
    using leaves_path f by blast
  have "unflatten_loop (flattenDiff d []) [] = ins_all (leaves d) []"
    unfolding flat using paths by (rule unflatten_loop_paths)
  also have "\<dots> = Inr ([] @ d)"
    using d f by (intro ins_all_leaves) auto
  finally show "unflattenDiff (flattenDiff d '''') = Inr d"
    by (simp add: unflattenDiff_def)
qed

theorem flatten_round_trip_witness:
  "flattenable
     [(''building'', JObj [(''floors'', JNum 5), (''size'', JObj [(''w'', JNull)])]),
      (''name'', JStr ''Test''), (''tags'', JArr [JStr ''a'', JArr []]),
      (''old'', JDeleteField), (''at'', JServerTimestamp),
      (''constructor'', JObj [(''toString'', JNum 1)])]
   \<and> flattenDiff
       [(''building'', JObj [(''floors'', JNum 5), (''size'', JObj [(''w'', JNull)])]),
      (''name'', JStr ''Test''), (''tags'', JArr [JStr ''a'', JArr []]),
      (''old'', JDeleteField), (''at'', JServerTimestamp),
      (''constructor'', JObj [(''toString'', JNum 1)])] '''' =
       [(''building.floors'', JNum 5), (''building.size.w'', JNull), (''name'', JStr ''Test''),
        (''tags'', JArr [JStr ''a'', JArr []]), (''old'', JDeleteField),
        (''at'', JServerTimestamp), (''constructor.toString'', JNum 1)]
   \<and> unflattenDiff
       (flattenDiff
          [(''building'', JObj [(''floors'', JNum 5), (''size'', JObj [(''w'', JNull)])]),
      (''name'', JStr ''Test''), (''tags'', JArr [JStr ''a'', JArr []]),
      (''old'', JDeleteField), (''at'', JServerTimestamp),
      (''constructor'', JObj [(''toString'', JNum 1)])] '''') =
       Inr [(''building'', JObj [(''floors'', JNum 5), (''size'', JObj [(''w'', JNull)])]),
      (''name'', JStr ''Test''), (''tags'', JArr [JStr ''a'', JArr []]),
      (''old'', JDeleteField), (''at'', JServerTimestamp),
      (''constructor'', JObj [(''toString'', JNum 1)])]"
  using flatten_round_trip
    [of "[(''building'', JObj [(''floors'', JNum 5), (''size'', JObj [(''w'', JNull)])]),
      (''name'', JStr ''Test''), (''tags'', JArr [JStr ''a'', JArr []]),
      (''old'', JDeleteField), (''at'', JServerTimestamp),
      (''constructor'', JObj [(''toString'', JNum 1)])]"]
  by (simp add: flattenable_def eval_defs eval_simps)

text \<open>
  C9, as stated.  An empty nested object has no leaf and is lost: \<open>{a: {}}\<close> comes back as
  \<open>{}\<close>.  A key with a dot is split: \<open>{"a.b": 1}\<close> comes back as \<open>{a: {b: 1}}\<close>.  An object
  under the empty key at the top is flattened with no prefix: \<open>{"": {x: 1}}\<close> comes back as
  \<open>{x: 1}\<close>.  An object under the own key \<open>__proto__\<close> is flattened to the path
  \<open>__proto__.x\<close>, and \<open>unflattenDiff\<close> follows that path into \<open>Object.prototype\<close>: the value
  does not come back in the result.
\<close>

theorem flatten_loses_empty_object:
  "unflattenDiff (flattenDiff [(''a'', JObj [])] '''') = Inr []
   \<and> unflattenDiff (flattenDiff [(''a'', JObj [])] '''') \<noteq> Inr [(''a'', JObj [])]
   \<and> unflattenDiff (flattenDiff [(''a.b'', JNum 1)] '''') = Inr [(''a'', JObj [(''b'', JNum 1)])]
   \<and> unflattenDiff (flattenDiff [(''a.b'', JNum 1)] '''') \<noteq> Inr [(''a.b'', JNum 1)]
   \<and> unflattenDiff (flattenDiff [('''', JObj [(''x'', JNum 1)])] '''') = Inr [(''x'', JNum 1)]
   \<and> unflattenDiff (flattenDiff [('''', JObj [(''x'', JNum 1)])] '''') \<noteq>
       Inr [('''', JObj [(''x'', JNum 1)])]
   \<and> flattenDiff [(''__proto__'', JObj [(''x'', JNum 1)])] '''' = [(''__proto__.x'', JNum 1)]
   \<and> unflattenDiff (flattenDiff [(''__proto__'', JObj [(''x'', JNum 1)])] '''') =
       Inl PrototypeTarget
   \<and> unflattenDiff (flattenDiff [(''__proto__'', JObj [(''x'', JNum 1)])] '''') \<noteq>
       Inr [(''__proto__'', JObj [(''x'', JNum 1)])]"
  by (simp add: unflattenDiff_def eval_defs eval_simps)

section \<open>The undo law\<close>















declare applyDiffMutable.simps(2) [simp del]


























































end
